theory Spec2Isabelle
  imports Main "HOL-Library.Sublist" "HOL-Library.Multiset" "HOL-Library.Word"
begin

text \<open>
  A shallow embedding of the sitemap builder's package \<open>parse\<close>: the link extractor
  (\<open>extractText\<close>, \<open>ExtractLinks\<close>, \<open>isInternalLink\<close>, \<open>resolveURL\<close>), the page fetcher
  (\<open>FetchAndParse\<close>), the breadth-first crawl (\<open>CrawlBFS\<close>) and the sitemap encoder
  (\<open>EncodeXML\<close>). The functions of Go's standard library that the package calls
  (\<open>strings\<close>, \<open>net/url\<close>, \<open>encoding/xml\<close>) are modelled first, after the library's
  sources as of Go 1.24, byte for byte on strings.
\<close>

section \<open>Go strings\<close>

text \<open>
  A Go string is a sequence of bytes; it is modelled as \<^typ>\<open>string\<close>, whose characters
  are the 256 byte values. \<open>byte c\<close> is the numeric value of a byte.
\<close>

definition byte :: "char \<Rightarrow> nat" where
  "byte c = of_char c"

text \<open>\<open>strings.HasPrefix(s, p)\<close> is \<^term>\<open>prefix p s\<close> and \<open>strings.HasSuffix(s, p)\<close> is
  \<^term>\<open>suffix p s\<close>; \<open>strings.Contains(s, c)\<close> for a one-byte \<open>c\<close> is membership in
  \<^term>\<open>set s\<close>.\<close>

definition HasPrefix :: "string \<Rightarrow> string \<Rightarrow> bool" where
  "HasPrefix s p = prefix p s"

definition HasSuffix :: "string \<Rightarrow> string \<Rightarrow> bool" where
  "HasSuffix s p = suffix p s"

text \<open>\<open>strings.Cut(s, sep)\<close> for a one-byte separator: the text before the first
  occurrence, the text after it, and whether it was found.\<close>

definition Cut :: "string \<Rightarrow> char \<Rightarrow> string \<times> string \<times> bool" where
  "Cut s sep = (if sep \<in> set s
      then (takeWhile (\<lambda>c. c \<noteq> sep) s, tl (dropWhile (\<lambda>c. c \<noteq> sep) s), True)
      else (s, [], False))"

text \<open>\<open>strings.Index(s, sub)\<close>: the position of the first occurrence of \<open>sub\<close>.\<close>

fun Index :: "string \<Rightarrow> string \<Rightarrow> nat option" where
  "Index [] sub = (if sub = [] then Some 0 else None)"
| "Index (c # s) sub =
     (if prefix sub (c # s) then Some 0 else map_option Suc (Index s sub))"

text \<open>\<open>strings.LastIndex(s, c)\<close> for a one-byte \<open>c\<close>: the position of its last occurrence.\<close>

definition LastIndex :: "string \<Rightarrow> char \<Rightarrow> nat option" where
  "LastIndex s c = (if c \<in> set s
      then Some (length s - 1 - length (takeWhile (\<lambda>d. d \<noteq> c) (rev s)))
      else None)"

text \<open>\<open>strings.ToLower\<close> on ASCII text (the only use is on a URL scheme, which
  \<open>getScheme\<close> restricts to ASCII letters, digits, \<open>+\<close>, \<open>-\<close> and \<open>.\<close>).\<close>

definition lowerByte :: "char \<Rightarrow> char" where
  "lowerByte c = (if byte CHR ''A'' \<le> byte c \<and> byte c \<le> byte CHR ''Z''
                  then char_of (byte c + 32) else c)"

definition ToLower :: "string \<Rightarrow> string" where
  "ToLower s = map lowerByte s"

text \<open>
  \<open>unicode.IsSpace\<close> on the UTF-8 text of a string. \<open>spaceWidth s\<close> is the number of bytes
  of the white-space character that \<open>s\<close> starts with, and 0 when it starts with none:
  the six ASCII spaces, U+0085, U+00A0, U+1680, U+2000 to U+200A, U+2028, U+2029, U+202F,
  U+205F and U+3000. No continuation byte starts one of these encodings, so scanning a
  string byte by byte finds exactly the white-space characters that decoding it finds.
\<close>

definition spaceRunes :: "string list" where
  "spaceRunes =
     [[CHR 0x09], [CHR 0x0A], [CHR 0x0B], [CHR 0x0C], [CHR 0x0D], [CHR 0x20],
      [CHR 0xC2, CHR 0x85], [CHR 0xC2, CHR 0xA0], [CHR 0xE1, CHR 0x9A, CHR 0x80],
      [CHR 0xE2, CHR 0x80, CHR 0x80], [CHR 0xE2, CHR 0x80, CHR 0x81],
      [CHR 0xE2, CHR 0x80, CHR 0x82], [CHR 0xE2, CHR 0x80, CHR 0x83],
      [CHR 0xE2, CHR 0x80, CHR 0x84], [CHR 0xE2, CHR 0x80, CHR 0x85],
      [CHR 0xE2, CHR 0x80, CHR 0x86], [CHR 0xE2, CHR 0x80, CHR 0x87],
      [CHR 0xE2, CHR 0x80, CHR 0x88], [CHR 0xE2, CHR 0x80, CHR 0x89],
      [CHR 0xE2, CHR 0x80, CHR 0x8A], [CHR 0xE2, CHR 0x80, CHR 0xA8],
      [CHR 0xE2, CHR 0x80, CHR 0xA9], [CHR 0xE2, CHR 0x80, CHR 0xAF],
      [CHR 0xE2, CHR 0x81, CHR 0x9F], [CHR 0xE3, CHR 0x80, CHR 0x80]]"

definition spaceWidth :: "string \<Rightarrow> nat" where
  "spaceWidth s = (case find (\<lambda>p. prefix p s) spaceRunes of Some p \<Rightarrow> length p | None \<Rightarrow> 0)"

text \<open>The same at the end of a string (\<open>utf8.DecodeLastRuneInString\<close>).\<close>

definition spaceWidthLast :: "string \<Rightarrow> nat" where
  "spaceWidthLast s = (case find (\<lambda>p. suffix p s) spaceRunes of Some p \<Rightarrow> length p | None \<Rightarrow> 0)"

lemma spaceWidth_Nil [simp]: "spaceWidth [] = 0"
  by (simp add: spaceWidth_def spaceRunes_def)

lemma spaceWidthLast_Nil [simp]: "spaceWidthLast [] = 0"
  by (simp add: spaceWidthLast_def spaceRunes_def)

text \<open>\<open>strings.Fields\<close>: the maximal runs of non-space bytes, in order. \<open>cur\<close> is the
  field being read.\<close>

function fields :: "string \<Rightarrow> string \<Rightarrow> string list" where
  "fields cur [] = (if cur = [] then [] else [cur])"
| "fields cur (c # s) =
     (if 0 < spaceWidth (c # s)
      then (if cur = [] then [] else [cur]) @ fields [] (drop (spaceWidth (c # s)) (c # s))
      else fields (cur @ [c]) s)"
  by pat_completeness auto
termination
  by (relation "measure (\<lambda>(cur, s). length s)") auto

definition Fields :: "string \<Rightarrow> string list" where
  "Fields s = fields [] s"

text \<open>\<open>strings.Join(elems, sep)\<close>.\<close>

fun Join :: "string list \<Rightarrow> string \<Rightarrow> string" where
  "Join [] sep = []"
| "Join [e] sep = e"
| "Join (e # es) sep = e @ sep @ Join es sep"

text \<open>\<open>strings.TrimSpace\<close>: leading, then trailing white space removed.\<close>

function trimLeft :: "string \<Rightarrow> string" where
  "trimLeft s = (if 0 < spaceWidth s then trimLeft (drop (spaceWidth s) s) else s)"
  by pat_completeness auto
termination
  by (relation "measure length") (auto, case_tac s, auto)

declare trimLeft.simps [simp del]

function trimRight :: "string \<Rightarrow> string" where
  "trimRight s =
     (if 0 < spaceWidthLast s then trimRight (take (length s - spaceWidthLast s) s) else s)"
  by pat_completeness auto
termination
  by (relation "measure length") (auto, case_tac s, auto)

declare trimRight.simps [simp del]

definition TrimSpace :: "string \<Rightarrow> string" where
  "TrimSpace s = trimRight (trimLeft s)"

section \<open>Go's \<open>net/url\<close>\<close>

text \<open>
  The part of \<open>net/url\<close> behind \<open>url.Parse\<close>, \<open>URL.IsAbs\<close>, \<open>URL.String\<close> and
  \<open>URL.ResolveReference\<close>, which \<open>resolveURL\<close> calls. An error of the library is a value
  of \<open>url_error\<close>; only its being an error matters to the package.
\<close>

datatype url_error =
    InvalidControlCharacter
  | MissingProtocolScheme
  | FirstPathSegmentColon
  | EscapeError string
  | InvalidHostError string
  | MissingBracket
  | InvalidPort string
  | InvalidUserinfo

datatype encoding =
    encodePath
  | encodePathSegment
  | encodeHost
  | encodeZone
  | encodeUserPassword
  | encodeQueryComponent
  | encodeFragment

record Userinfo =
  username :: string
  password :: string
  passwordSet :: bool

record URL =
  Scheme :: string
  Opaque :: string
  User :: "Userinfo option"
  Host :: string
  Path :: string
  RawPath :: string
  OmitHost :: bool
  ForceQuery :: bool
  RawQuery :: string
  Fragment :: string
  RawFragment :: string

definition emptyURL :: URL where
  "emptyURL = \<lparr>Scheme = [], Opaque = [], User = None, Host = [], Path = [], RawPath = [],
     OmitHost = False, ForceQuery = False, RawQuery = [], Fragment = [], RawFragment = []\<rparr>"

definition inRange :: "char \<Rightarrow> char \<Rightarrow> char \<Rightarrow> bool" where
  "inRange lo hi c = (byte lo \<le> byte c \<and> byte c \<le> byte hi)"

definition isLetter :: "char \<Rightarrow> bool" where
  "isLetter c = (inRange CHR ''a'' CHR ''z'' c \<or> inRange CHR ''A'' CHR ''Z'' c)"

definition isDigit :: "char \<Rightarrow> bool" where
  "isDigit c = inRange CHR ''0'' CHR ''9'' c"

definition ishex :: "char \<Rightarrow> bool" where
  "ishex c = (isDigit c \<or> inRange CHR ''a'' CHR ''f'' c \<or> inRange CHR ''A'' CHR ''F'' c)"

definition unhex :: "char \<Rightarrow> nat" where
  "unhex c =
     (if isDigit c then byte c - byte CHR ''0''
      else if inRange CHR ''a'' CHR ''f'' c then byte c - byte CHR ''a'' + 10
      else if inRange CHR ''A'' CHR ''F'' c then byte c - byte CHR ''A'' + 10
      else 0)"

definition upperhex :: string where
  "upperhex = ''0123456789ABCDEF''"

text \<open>\<open>shouldEscape(c, mode)\<close>: whether the byte must be escaped in that part of a URL.
  The apostrophe is \<open>CHR 0x27\<close> and the double quote \<open>CHR 0x22\<close>.\<close>

definition shouldEscape :: "char \<Rightarrow> encoding \<Rightarrow> bool" where
  "shouldEscape c mode =
     (if isLetter c \<or> isDigit c then False
      else if (mode = encodeHost \<or> mode = encodeZone) \<and>
              c \<in> set (''!$&()*+,;=:[]<>'' @ [CHR 0x27, CHR 0x22]) then False
      else if c \<in> set ''-_.~'' then False
      else if c \<in> set ''$&+,/:;=?@'' \<and> mode = encodePath then c = CHR ''?''
      else if c \<in> set ''$&+,/:;=?@'' \<and> mode = encodePathSegment then c \<in> set ''/;,?''
      else if c \<in> set ''$&+,/:;=?@'' \<and> mode = encodeUserPassword then c \<in> set ''@/?:''
      else if c \<in> set ''$&+,/:;=?@'' \<and> mode = encodeQueryComponent then True
      else if c \<in> set ''$&+,/:;=?@'' \<and> mode = encodeFragment then False
      else if mode = encodeFragment \<and> c \<in> set ''!()*'' then False
      else True)"

text \<open>\<open>unescape(s, mode)\<close> is two passes in the library: the first checks the
  \<open>%\<close>-escapes (and, in a host, the bytes), the second decodes them.\<close>

fun unescapeCheck :: "encoding \<Rightarrow> string \<Rightarrow> url_error option" where
  "unescapeCheck mode [] = None"
| "unescapeCheck mode (c # s) =
     (if c = CHR ''%'' then
        (case s of
           h1 # h2 # rest \<Rightarrow>
             if \<not> ishex h1 \<or> \<not> ishex h2 then Some (EscapeError (take 3 (c # s)))
             else if mode = encodeHost \<and> unhex h1 < 8 \<and> [c, h1, h2] \<noteq> ''%25''
               then Some (EscapeError [c, h1, h2])
             else if mode = encodeZone \<and> [c, h1, h2] \<noteq> ''%25'' \<and>
                     unhex h1 * 16 + unhex h2 \<noteq> byte CHR '' '' \<and>
                     shouldEscape (char_of (unhex h1 * 16 + unhex h2)) encodeHost
               then Some (EscapeError [c, h1, h2])
             else unescapeCheck mode rest
         | _ \<Rightarrow> Some (EscapeError (take 3 (c # s))))
      else if c = CHR ''+'' then unescapeCheck mode s
      else if (mode = encodeHost \<or> mode = encodeZone) \<and> byte c < 0x80 \<and>
              shouldEscape c encodeHost then Some (InvalidHostError [c])
      else unescapeCheck mode s)"

fun unescapeDecode :: "encoding \<Rightarrow> string \<Rightarrow> string" where
  "unescapeDecode mode [] = []"
| "unescapeDecode mode (c # s) =
     (if c = CHR ''%'' then
        (case s of
           h1 # h2 # rest \<Rightarrow> char_of (unhex h1 * 16 + unhex h2) # unescapeDecode mode rest
         | _ \<Rightarrow> c # unescapeDecode mode s)
      else if c = CHR ''+'' \<and> mode = encodeQueryComponent then CHR '' '' # unescapeDecode mode s
      else c # unescapeDecode mode s)"

definition unescape :: "string \<Rightarrow> encoding \<Rightarrow> url_error + string" where
  "unescape s mode =
     (case unescapeCheck mode s of
        Some e \<Rightarrow> Inl e
      | None \<Rightarrow> Inr (unescapeDecode mode s))"

definition escape :: "string \<Rightarrow> encoding \<Rightarrow> string" where
  "escape s mode = concat (map (\<lambda>c.
       if c = CHR '' '' \<and> mode = encodeQueryComponent then ''+''
       else if shouldEscape c mode
         then [CHR ''%'', upperhex ! (byte c div 16), upperhex ! (byte c mod 16)]
       else [c]) s)"

definition validEncoded :: "string \<Rightarrow> encoding \<Rightarrow> bool" where
  "validEncoded s mode =
     list_all (\<lambda>c. c \<in> set (''!$&()*+,;=:@[]%'' @ [CHR 0x27]) \<or> \<not> shouldEscape c mode) s"

definition validOptionalPort :: "string \<Rightarrow> bool" where
  "validOptionalPort port =
     (case port of
        [] \<Rightarrow> True
      | c # ds \<Rightarrow> c = CHR '':'' \<and> list_all isDigit ds)"

definition validUserinfo :: "string \<Rightarrow> bool" where
  "validUserinfo s =
     list_all (\<lambda>r. isLetter r \<or> isDigit r \<or> r \<in> set (''-._:~!$&()*+,;=%@'' @ [CHR 0x27])) s"

definition stringContainsCTLByte :: "string \<Rightarrow> bool" where
  "stringContainsCTLByte s = list_ex (\<lambda>b. byte b < byte CHR '' '' \<or> byte b = 0x7f) s"

text \<open>\<open>getScheme(rawURL)\<close>: the scheme and the rest; \<open>i\<close> is the position reached and
  \<open>s\<close> what is left to read.\<close>

fun getSchemeFrom :: "string \<Rightarrow> nat \<Rightarrow> string \<Rightarrow> url_error + string \<times> string" where
  "getSchemeFrom rawURL i [] = Inr ([], rawURL)"
| "getSchemeFrom rawURL i (c # s) =
     (if isLetter c then getSchemeFrom rawURL (i + 1) s
      else if isDigit c \<or> c \<in> set ''+-.'' then
        (if i = 0 then Inr ([], rawURL) else getSchemeFrom rawURL (i + 1) s)
      else if c = CHR '':'' then
        (if i = 0 then Inl MissingProtocolScheme else Inr (take i rawURL, drop (i + 1) rawURL))
      else Inr ([], rawURL))"

definition getScheme :: "string \<Rightarrow> url_error + string \<times> string" where
  "getScheme rawURL = getSchemeFrom rawURL 0 rawURL"

text \<open>\<open>URL.setPath\<close> and \<open>URL.setFragment\<close>: the decoded text, and the raw text when
  it is not the default encoding of the decoded one.\<close>

definition setPath :: "URL \<Rightarrow> string \<Rightarrow> url_error + URL" where
  "setPath u p =
     (case unescape p encodePath of
        Inl e \<Rightarrow> Inl e
      | Inr path \<Rightarrow>
          Inr (u\<lparr>Path := path, RawPath := (if p = escape path encodePath then [] else p)\<rparr>))"

definition setFragment :: "URL \<Rightarrow> string \<Rightarrow> url_error + URL" where
  "setFragment u f =
     (case unescape f encodeFragment of
        Inl e \<Rightarrow> Inl e
      | Inr frag \<Rightarrow>
          Inr (u\<lparr>Fragment := frag,
                 RawFragment := (if f = escape frag encodeFragment then [] else f)\<rparr>))"

definition EscapedPath :: "URL \<Rightarrow> string" where
  "EscapedPath u =
     (if RawPath u \<noteq> [] \<and> validEncoded (RawPath u) encodePath \<and>
         unescape (RawPath u) encodePath = Inr (Path u) then RawPath u
      else if Path u = ''*'' then ''*''
      else escape (Path u) encodePath)"

definition EscapedFragment :: "URL \<Rightarrow> string" where
  "EscapedFragment u =
     (if RawFragment u \<noteq> [] \<and> validEncoded (RawFragment u) encodeFragment \<and>
         unescape (RawFragment u) encodeFragment = Inr (Fragment u) then RawFragment u
      else escape (Fragment u) encodeFragment)"

text \<open>\<open>parseHost\<close>: a bracketed IP literal with an optional zone and port, or a name with
  an optional port.\<close>

definition parseHost :: "string \<Rightarrow> url_error + string" where
  "parseHost host =
     (if HasPrefix host ''['' then
        (case LastIndex host CHR '']'' of
           None \<Rightarrow> Inl MissingBracket
         | Some i \<Rightarrow>
             if \<not> validOptionalPort (drop (i + 1) host) then Inl (InvalidPort (drop (i + 1) host))
             else
               (case Index (take i host) ''%25'' of
                  Some zone \<Rightarrow>
                    (case unescape (take zone host) encodeHost of
                       Inl e \<Rightarrow> Inl e
                     | Inr host1 \<Rightarrow>
                    (case unescape (take (i - zone) (drop zone host)) encodeZone of
                       Inl e \<Rightarrow> Inl e
                     | Inr host2 \<Rightarrow>
                    (case unescape (drop i host) encodeHost of
                       Inl e \<Rightarrow> Inl e
                     | Inr host3 \<Rightarrow> Inr (host1 @ host2 @ host3))))
                | None \<Rightarrow> unescape host encodeHost))
      else
        (case LastIndex host CHR '':'' of
           Some i \<Rightarrow>
             if \<not> validOptionalPort (drop i host) then Inl (InvalidPort (drop i host))
             else unescape host encodeHost
         | None \<Rightarrow> unescape host encodeHost))"

text \<open>\<open>parseAuthority\<close>: \<open>[userinfo@]host\<close>.\<close>

definition parseUserinfo :: "string \<Rightarrow> url_error + Userinfo" where
  "parseUserinfo userinfo =
     (if \<not> validUserinfo userinfo then Inl InvalidUserinfo
      else if CHR '':'' \<notin> set userinfo then
        (case unescape userinfo encodeUserPassword of
           Inl e \<Rightarrow> Inl e
         | Inr name \<Rightarrow> Inr \<lparr>username = name, password = [], passwordSet = False\<rparr>)
      else
        (case Cut userinfo CHR '':'' of
           (name0, pass0, _) \<Rightarrow>
             (case unescape name0 encodeUserPassword of
                Inl e \<Rightarrow> Inl e
              | Inr name \<Rightarrow>
             (case unescape pass0 encodeUserPassword of
                Inl e \<Rightarrow> Inl e
              | Inr pass \<Rightarrow> Inr \<lparr>username = name, password = pass, passwordSet = True\<rparr>))))"

definition parseAuthority :: "string \<Rightarrow> url_error + Userinfo option \<times> string" where
  "parseAuthority authority =
     (case LastIndex authority CHR ''@'' of
        None \<Rightarrow>
          (case parseHost authority of
             Inl e \<Rightarrow> Inl e
           | Inr host \<Rightarrow> Inr (None, host))
      | Some i \<Rightarrow>
          (case parseHost (drop (i + 1) authority) of
             Inl e \<Rightarrow> Inl e
           | Inr host \<Rightarrow>
               (case parseUserinfo (take i authority) of
                  Inl e \<Rightarrow> Inl e
                | Inr user \<Rightarrow> Inr (Some user, host))))"

text \<open>\<open>parse(rawURL, viaRequest = false)\<close>: a URL without its fragment.\<close>

definition parseRest :: "URL \<Rightarrow> string \<Rightarrow> url_error + URL" where
  "parseRest url rest =
     (if \<not> HasPrefix rest ''/'' \<and> Scheme url \<noteq> [] then Inr (url\<lparr>Opaque := rest\<rparr>)
      else if \<not> HasPrefix rest ''/'' \<and> CHR '':'' \<in> set (fst (Cut rest CHR ''/''))
        then Inl FirstPathSegmentColon
      else if (Scheme url \<noteq> [] \<or> \<not> HasPrefix rest ''///'') \<and> HasPrefix rest ''//'' then
        (case Cut (drop 2 rest) CHR ''/'' of
           (authority, after, found) \<Rightarrow>
             (case parseAuthority authority of
                Inl e \<Rightarrow> Inl e
              | Inr (user, host) \<Rightarrow>
                  setPath (url\<lparr>User := user, Host := host\<rparr>)
                    (if found then CHR ''/'' # after else [])))
      else if Scheme url \<noteq> [] \<and> HasPrefix rest ''/'' then setPath (url\<lparr>OmitHost := True\<rparr>) rest
      else setPath url rest)"

definition parse :: "string \<Rightarrow> url_error + URL" where
  "parse rawURL =
     (if stringContainsCTLByte rawURL then Inl InvalidControlCharacter
      else if rawURL = ''*'' then Inr (emptyURL\<lparr>Path := ''*''\<rparr>)
      else
        (case getScheme rawURL of
           Inl e \<Rightarrow> Inl e
         | Inr (scheme, rest) \<Rightarrow>
             if HasSuffix rest ''?'' \<and> count_list rest CHR ''?'' = 1
             then parseRest (emptyURL\<lparr>Scheme := ToLower scheme, ForceQuery := True\<rparr>)
                    (butlast rest)
             else
               (case Cut rest CHR ''?'' of
                  (rest', query, _) \<Rightarrow>
                    parseRest (emptyURL\<lparr>Scheme := ToLower scheme, RawQuery := query\<rparr>) rest')))"

text \<open>\<open>url.Parse(rawURL)\<close>.\<close>

definition Parse :: "string \<Rightarrow> url_error + URL" where
  "Parse rawURL =
     (case Cut rawURL CHR ''#'' of
        (u, frag, _) \<Rightarrow>
          (case parse u of
             Inl e \<Rightarrow> Inl e
           | Inr url \<Rightarrow> if frag = [] then Inr url else setFragment url frag))"

text \<open>\<open>URL.IsAbs\<close>.\<close>

definition IsAbs :: "URL \<Rightarrow> bool" where
  "IsAbs u = (Scheme u \<noteq> [])"

text \<open>\<open>Userinfo.String\<close> and \<open>URL.String\<close>: the URL written out again.\<close>

definition Userinfo_String :: "Userinfo \<Rightarrow> string" where
  "Userinfo_String ui =
     escape (username ui) encodeUserPassword @
     (if passwordSet ui then '':'' @ escape (password ui) encodeUserPassword else [])"

definition authorityString :: "URL \<Rightarrow> string" where
  "authorityString u =
     (if Scheme u \<noteq> [] \<or> Host u \<noteq> [] \<or> User u \<noteq> None then
        (if OmitHost u \<and> Host u = [] \<and> User u = None then []
         else
           (if Host u \<noteq> [] \<or> Path u \<noteq> [] \<or> User u \<noteq> None then ''//'' else []) @
           (case User u of None \<Rightarrow> [] | Some ui \<Rightarrow> Userinfo_String ui @ ''@'') @
           (if Host u \<noteq> [] then escape (Host u) encodeHost else []))
      else [])"

definition pathString :: "URL \<Rightarrow> string \<Rightarrow> string" where
  "pathString u buf =
     (let path = EscapedPath u;
          buf1 = (if path \<noteq> [] \<and> hd path \<noteq> CHR ''/'' \<and> Host u \<noteq> [] then buf @ ''/'' else buf);
          buf2 = (if buf1 = [] \<and> CHR '':'' \<in> set (fst (Cut path CHR ''/'')) then buf1 @ ''./''
                  else buf1)
      in buf2 @ path)"

definition URL_String :: "URL \<Rightarrow> string" where
  "URL_String u =
     (let buf = (if Scheme u \<noteq> [] then Scheme u @ '':'' else []);
          buf1 = (if Opaque u \<noteq> [] then buf @ Opaque u
                  else pathString u (buf @ authorityString u));
          buf2 = (if ForceQuery u \<or> RawQuery u \<noteq> [] then buf1 @ ''?'' @ RawQuery u else buf1)
      in if Fragment u \<noteq> [] then buf2 @ ''#'' @ EscapedFragment u else buf2)"

text \<open>\<open>resolvePath(base, ref)\<close>: the reference applied to the base path, with the
  \<open>.\<close> and \<open>..\<close> elements removed. \<open>Split\<close> is the sequence of elements that the loop's
  repeated \<open>strings.Cut(remaining, "/")\<close> reads; the loop's state is the text written so
  far and the flag \<open>first\<close>.\<close>

function Split :: "string \<Rightarrow> char \<Rightarrow> string list" where
  "Split s sep =
     (if sep \<in> set s then takeWhile (\<lambda>c. c \<noteq> sep) s # Split (tl (dropWhile (\<lambda>c. c \<noteq> sep) s)) sep
      else [s])"
  by pat_completeness auto
termination
proof (relation "measure (\<lambda>(s, sep). length s)")
  fix s :: string and sep :: char
  assume "sep \<in> set s"
  then have "dropWhile (\<lambda>c. c \<noteq> sep) s \<noteq> []"
    by (simp add: dropWhile_eq_Nil_conv)
  moreover have "length (dropWhile (\<lambda>c. c \<noteq> sep) s) \<le> length s"
    by (rule length_dropWhile_le)
  ultimately show "((tl (dropWhile (\<lambda>c. c \<noteq> sep) s), sep), (s, sep)) \<in> measure (\<lambda>(s, sep). length s)"
    by (cases "dropWhile (\<lambda>c. c \<noteq> sep) s") auto
qed simp

declare Split.simps [simp del]

definition resolveElem :: "string \<Rightarrow> string \<times> bool \<Rightarrow> string \<times> bool" where
  "resolveElem elem st =
     (case st of (dst, first) \<Rightarrow>
        if elem = ''.'' then (dst, False)
        else if elem = ''..'' then
          (case LastIndex (tl dst) CHR ''/'' of
             None \<Rightarrow> (''/'', True)
           | Some index \<Rightarrow> (''/'' @ take index (tl dst), first))
        else ((if first then dst else dst @ ''/'') @ elem, False))"

definition resolvePath :: "string \<Rightarrow> string \<Rightarrow> string" where
  "resolvePath base ref =
     (let full =
            (if ref = [] then base
             else if hd ref \<noteq> CHR ''/'' then
               (case LastIndex base CHR ''/'' of
                  None \<Rightarrow> ref
                | Some i \<Rightarrow> take (i + 1) base @ ref)
             else ref)
      in if full = [] then []
         else
           (let elems = Split full CHR ''/'';
                dst = fst (fold resolveElem elems (''/'', True));
                r = (if last elems = ''.'' \<or> last elems = ''..'' then dst @ ''/'' else dst)
            in if 1 < length r \<and> r ! 1 = CHR ''/'' then tl r else r))"

text \<open>\<open>URL.ResolveReference\<close>. The library ignores the error of \<open>setPath\<close> here; the
  URL then keeps the path it had.\<close>

definition setPathIgnore :: "URL \<Rightarrow> string \<Rightarrow> URL" where
  "setPathIgnore u p = (case setPath u p of Inl e \<Rightarrow> u | Inr u' \<Rightarrow> u')"

definition ResolveReference :: "URL \<Rightarrow> URL \<Rightarrow> URL" where
  "ResolveReference u ref =
     (let url = (if Scheme ref = [] then ref\<lparr>Scheme := Scheme u\<rparr> else ref)
      in if Scheme ref \<noteq> [] \<or> Host ref \<noteq> [] \<or> User ref \<noteq> None
           then setPathIgnore url (resolvePath (EscapedPath ref) [])
         else if Opaque ref \<noteq> [] then url\<lparr>User := None, Host := [], Path := []\<rparr>
         else
           (let url1 = (if Path ref = [] \<and> \<not> ForceQuery ref \<and> RawQuery ref = []
                        then (if Fragment ref = []
                              then url\<lparr>RawQuery := RawQuery u, Fragment := Fragment u,
                                       RawFragment := RawFragment u\<rparr>
                              else url\<lparr>RawQuery := RawQuery u\<rparr>)
                        else url)
            in if Path ref = [] \<and> Opaque u \<noteq> []
                 then url1\<lparr>Opaque := Opaque u, User := None, Host := [], Path := []\<rparr>
               else setPathIgnore (url1\<lparr>Host := Host u, User := User u\<rparr>)
                      (resolvePath (EscapedPath u) (EscapedPath ref))))"

section \<open>The URL resolver\<close>

text \<open>\<open>resolveURL(base, href)\<close> of the package.\<close>

definition resolveURL :: "string \<Rightarrow> string \<Rightarrow> string" where
  "resolveURL base href =
     (case Parse href of
        Inl err \<Rightarrow> href
      | Inr hrefURL \<Rightarrow>
          if IsAbs hrefURL then URL_String hrefURL
          else
            (case Parse base of
               Inl err \<Rightarrow> href
             | Inr baseURL \<Rightarrow> URL_String (ResolveReference baseURL hrefURL)))"

section \<open>The document tree\<close>

text \<open>
  \<open>html.Node\<close> of \<open>golang.org/x/net/html\<close>: the node's type, its atom (\<open>atom.A\<close> is the
  atom of the anchor tag), its data, its attributes in the order they are written, and its
  children from \<open>FirstChild\<close> along \<open>NextSibling\<close>.
\<close>

datatype NodeType =
    ErrorNode
  | TextNode
  | DocumentNode
  | ElementNode
  | CommentNode
  | DoctypeNode
  | RawNode

type_synonym Atom = "32 word"

definition atom_A :: Atom where
  "atom_A = 0x1"

record Attribute =
  Namespace :: string
  Key :: string
  Val :: string

datatype Node =
  Node (Type: NodeType) (DataAtom: Atom) (Data: string) (Attr: "Attribute list")
    (Children: "Node list")

record Link =
  Href :: string
  Text :: string

section \<open>The link extractor\<close>

text \<open>\<open>extractText(n)\<close>: the text of a text node; for an element, the texts of its
  children concatenated and then normalised; nothing for any other node.\<close>

fun extractText :: "Node \<Rightarrow> string" where
  "extractText (Node t a d attrs cs) =
     (if t = TextNode then d
      else if t \<noteq> ElementNode then []
      else Join (Fields (concat (map extractText cs))) '' '')"

text \<open>\<open>isInternalLink(link, baseDomain)\<close>.\<close>

definition isInternalLink :: "string \<Rightarrow> string \<Rightarrow> bool" where
  "isInternalLink link baseDomain = (HasPrefix link ''/'' \<or> HasPrefix link baseDomain)"

text \<open>
  \<open>ExtractLinks(n, baseDomain)\<close>. The closure \<open>walk\<close> updates the slice \<open>links\<close> and the map
  \<open>seen\<close>; here they are passed along as a pair. \<open>scanAttrs\<close> is the loop over the
  attributes of an anchor: it stops (\<open>break\<close>) at the first attribute whose key is
  \<open>href\<close> and whose value is an internal link, and goes on to the next attribute otherwise.
\<close>

fun scanAttrs ::
  "string \<Rightarrow> Node \<Rightarrow> Attribute list \<Rightarrow> Link list \<times> string set \<Rightarrow> Link list \<times> string set" where
  "scanAttrs baseDomain node [] (links, seen) = (links, seen)"
| "scanAttrs baseDomain node (attr # rest) (links, seen) =
     (if Key attr = ''href'' \<and> isInternalLink (Val attr) baseDomain then
        (let href = (if HasPrefix (Val attr) ''/'' then resolveURL baseDomain (Val attr)
                     else Val attr)
         in if href \<notin> seen
            then (links @ [\<lparr>Href = href, Text = TrimSpace (extractText node)\<rparr>], insert href seen)
            else (links, seen))
      else scanAttrs baseDomain node rest (links, seen))"

fun walk :: "string \<Rightarrow> Node \<Rightarrow> Link list \<times> string set \<Rightarrow> Link list \<times> string set"
  and walkChildren ::
    "string \<Rightarrow> Node list \<Rightarrow> Link list \<times> string set \<Rightarrow> Link list \<times> string set" where
  "walk baseDomain (Node t a d attrs cs) st =
     walkChildren baseDomain cs
       (if t = ElementNode \<and> a = atom_A then scanAttrs baseDomain (Node t a d attrs cs) attrs st
        else st)"
| "walkChildren baseDomain [] st = st"
| "walkChildren baseDomain (child # rest) st =
     walkChildren baseDomain rest (walk baseDomain child st)"

definition ExtractLinks :: "Node \<Rightarrow> string \<Rightarrow> Link list" where
  "ExtractLinks n baseDomain = fst (walk baseDomain n ([], {}))"

section \<open>The page fetcher\<close>

text \<open>
  The HTTP client is the crawl's window on the network. \<open>client url w\<close> is
  \<open>client.Do\<close> on the GET request for \<open>url\<close> in the state \<open>w\<close> of the world: no response
  (a transport error) or a response, and the world afterwards. A response carries its
  status code and what \<open>html.Parse\<close> makes of its body: a document tree, or nothing when
  reading or parsing the body fails. Nothing else in the package touches the world, so a
  run that returns the world it was given has made no request.

  \<open>http.NewRequest("GET", url, nil)\<close> fails exactly when \<open>url.Parse(url)\<close> does. What the
  package prints on standard output is kept as a list of \<open>printed\<close> values.
\<close>

record Response =
  StatusCode :: int
  Body :: "Node option"

type_synonym 'w Client = "string \<Rightarrow> 'w \<Rightarrow> Response option \<times> 'w"

datatype fetch_error =
    CreatingRequest url_error
  | Fetching
  | StatusNotOK int
  | ParsingHTML

datatype printed =
    ErrorCreatingRequest url_error
  | ErrorParsingHTML
  | WarningFailedToFetch string fetch_error

record 'w io =
  world :: 'w
  stdout :: "printed list"

definition println :: "printed \<Rightarrow> 'w io \<Rightarrow> 'w io" where
  "println line s = s\<lparr>stdout := stdout s @ [line]\<rparr>"

definition StatusOK :: int where
  "StatusOK = 200"

definition FetchAndParse :: "string \<Rightarrow> 'w Client \<Rightarrow> 'w io \<Rightarrow> (fetch_error + Node) \<times> 'w io" where
  "FetchAndParse url client s =
     (case Parse url of
        Inl err \<Rightarrow> (Inl (CreatingRequest err), println (ErrorCreatingRequest err) s)
      | Inr req \<Rightarrow>
          (case client url (world s) of
             (None, w) \<Rightarrow> (Inl Fetching, s\<lparr>world := w\<rparr>)
           | (Some resp, w) \<Rightarrow>
               if StatusCode resp \<noteq> StatusOK
               then (Inl (StatusNotOK (StatusCode resp)), s\<lparr>world := w\<rparr>)
               else
                 (case Body resp of
                    None \<Rightarrow> (Inl ParsingHTML, println ErrorParsingHTML (s\<lparr>world := w\<rparr>))
                  | Some doc \<Rightarrow> (Inr doc, s\<lparr>world := w\<rparr>))))"

section \<open>The breadth-first crawl\<close>

text \<open>
  \<open>CrawlBFS(links, maxDepth, client)\<close>. The local type \<open>Node\<close> of the function (a link
  with its depth) is \<open>CrawlNode\<close> here. A node is expanded only when its depth is below
  \<open>maxDepth\<close>, so \<open>depth + 1\<close> never exceeds \<open>maxDepth\<close> and never wraps around; the depth
  is an \<^typ>\<open>int\<close>.
\<close>

record CrawlNode =
  link :: Link
  depth :: int

record 'w crawl =
  visited :: "string set"
  queue :: "CrawlNode list"
  result :: "Link list"
  io :: "'w io"

datatype crawl_error = NoLinksToTraverse

text \<open>The loop over the neighbours: each one not yet visited is marked and enqueued.\<close>

fun enqueue ::
  "int \<Rightarrow> Link list \<Rightarrow> string set \<times> CrawlNode list \<Rightarrow> string set \<times> CrawlNode list" where
  "enqueue d [] (vis, q) = (vis, q)"
| "enqueue d (neighbor # rest) (vis, q) =
     (if Href neighbor \<notin> vis
      then enqueue d rest (insert (Href neighbor) vis, q @ [\<lparr>link = neighbor, depth = d + 1\<rparr>])
      else enqueue d rest (vis, q))"

text \<open>The body of the main loop, for a queue that starts with \<open>currentNode\<close>.\<close>

definition crawlStep :: "int \<Rightarrow> 'w Client \<Rightarrow> CrawlNode \<Rightarrow> 'w crawl \<Rightarrow> 'w crawl" where
  "crawlStep maxDepth client currentNode st =
     (let st1 = st\<lparr>queue := tl (queue st), result := result st @ [link currentNode]\<rparr>
      in if maxDepth \<le> depth currentNode then st1
         else
           (case FetchAndParse (Href (link currentNode)) client (io st1) of
              (Inl err, s) \<Rightarrow>
                st1\<lparr>io := println (WarningFailedToFetch (Href (link currentNode)) err) s\<rparr>
            | (Inr doc, s) \<Rightarrow>
                (case enqueue (depth currentNode)
                        (ExtractLinks doc (Href (link currentNode))) (visited st1, queue st1) of
                   (vis, q) \<Rightarrow> st1\<lparr>visited := vis, queue := q, io := s\<rparr>)))"

text \<open>The budget of a queued node: how many levels below it may still be expanded.\<close>

definition budget :: "int \<Rightarrow> CrawlNode \<Rightarrow> nat" where
  "budget maxDepth n = nat (maxDepth - depth n)"

lemma enqueue_queue:
  "\<exists>new. snd (enqueue d ns (vis, q)) = q @ new \<and> (\<forall>n \<in> set new. depth n = d + 1)"
proof (induction ns arbitrary: vis q)
  case Nil
  then show ?case by simp
next
  case (Cons n ns)
  show ?case
  proof (cases "Href n \<in> vis")
    case True
    then show ?thesis using Cons.IH [of vis q] by simp
  next
    case False
    obtain new where
      "snd (enqueue d ns (insert (Href n) vis, q @ [\<lparr>link = n, depth = d + 1\<rparr>])) =
         (q @ [\<lparr>link = n, depth = d + 1\<rparr>]) @ new"
      and "\<forall>m \<in> set new. depth m = d + 1"
      using Cons.IH [of "insert (Href n) vis" "q @ [\<lparr>link = n, depth = d + 1\<rparr>]"] by blast
    with False show ?thesis
      by (intro exI [of _ "\<lparr>link = n, depth = d + 1\<rparr> # new"]) simp
  qed
qed

lemma crawlStep_queue:
  "\<exists>new. queue (crawlStep maxDepth client c st) = tl (queue st) @ new \<and>
     (\<forall>n \<in> set new. depth c < maxDepth \<and> depth n = depth c + 1)"
proof (cases "maxDepth \<le> depth c")
  case True
  then show ?thesis by (simp add: crawlStep_def)
next
  case False
  let ?st1 = "st\<lparr>queue := tl (queue st), result := result st @ [link c]\<rparr>"
  obtain r s where f: "FetchAndParse (Href (link c)) client (io ?st1) = (r, s)"
    by (cases "FetchAndParse (Href (link c)) client (io ?st1)")
  show ?thesis
  proof (cases r)
    case (Inl err)
    with False f show ?thesis by (simp add: crawlStep_def)
  next
    case (Inr doc)
    obtain vis q where e:
      "enqueue (depth c) (ExtractLinks doc (Href (link c))) (visited st, tl (queue st)) = (vis, q)"
      by (cases "enqueue (depth c) (ExtractLinks doc (Href (link c))) (visited st, tl (queue st))")
    from enqueue_queue [of "depth c" "ExtractLinks doc (Href (link c))" "visited st" "tl (queue st)"] e
    obtain new where "q = tl (queue st) @ new" and "\<forall>n \<in> set new. depth n = depth c + 1"
      by auto
    with False f Inr e show ?thesis by (simp add: crawlStep_def)
  qed
qed

text \<open>The main loop \<open>for len(queue) > 0\<close>. It ends because each round replaces the node
  at the front of the queue by nodes of smaller budget.\<close>

function bfsLoop :: "int \<Rightarrow> 'w Client \<Rightarrow> 'w crawl \<Rightarrow> 'w crawl" where
  "bfsLoop maxDepth client st =
     (case queue st of
        [] \<Rightarrow> st
      | currentNode # rest \<Rightarrow> bfsLoop maxDepth client (crawlStep maxDepth client currentNode st))"
  by pat_completeness auto
termination
proof (relation "inv_image (mult less_than)
    (\<lambda>(maxDepth, client, st). mset (map (budget maxDepth) (queue st)))")
  show "wf (inv_image (mult less_than)
      (\<lambda>(maxDepth, client :: 'w Client, st :: 'w crawl). mset (map (budget maxDepth) (queue st))))"
    by (intro wf_inv_image wf_mult wf_less_than)
next
  fix maxDepth :: int and client :: "'w Client" and st :: "'w crawl" and c rest
  assume q: "queue st = c # rest"
  obtain new where new: "queue (crawlStep maxDepth client c st) = tl (queue st) @ new"
    and small: "\<forall>n \<in> set new. depth c < maxDepth \<and> depth n = depth c + 1"
    using crawlStep_queue [of maxDepth client c st] by blast
  have "(mset (map (budget maxDepth) rest) + mset (map (budget maxDepth) new),
         mset (map (budget maxDepth) rest) + {#budget maxDepth c#}) \<in> mult less_than"
  proof (rule one_step_implies_mult)
    show "{#budget maxDepth c#} \<noteq> {#}" by simp
    show "\<forall>k \<in> set_mset (mset (map (budget maxDepth) new)).
            \<exists>j \<in> set_mset {#budget maxDepth c#}. (k, j) \<in> less_than"
      using small by (auto simp: budget_def)
  qed
  with q new
  show "((maxDepth, client, crawlStep maxDepth client c st), (maxDepth, client, st))
      \<in> inv_image (mult less_than)
          (\<lambda>(maxDepth, client, st). mset (map (budget maxDepth) (queue st)))"
    by simp
qed

definition CrawlBFS ::
  "Link list \<Rightarrow> int \<Rightarrow> 'w Client \<Rightarrow> 'w io \<Rightarrow> (crawl_error + Link list) \<times> 'w io" where
  "CrawlBFS links maxDepth client s =
     (case links of
        [] \<Rightarrow> (Inl NoLinksToTraverse, s)
      | first # others \<Rightarrow>
          (let st = bfsLoop maxDepth client
                      \<lparr>visited = {Href first}, queue = [\<lparr>link = first, depth = 0\<rparr>],
                       result = [], io = s\<rparr>
           in (Inr (result st), io st)))"

section \<open>Go's \<open>encoding/xml\<close>\<close>

text \<open>
  \<open>utf8.DecodeRuneInString\<close>: the code point that a string starts with and the number of
  bytes of its encoding; \<open>RuneError\<close> with width 1 for a byte that starts no valid
  encoding.
\<close>

definition RuneError :: nat where
  "RuneError = 0xFFFD"

definition continuation :: "nat \<Rightarrow> nat \<Rightarrow> char \<Rightarrow> bool" where
  "continuation lo hi c = (lo \<le> byte c \<and> byte c \<le> hi)"

text \<open>The range that the library accepts for the second byte after the lead byte \<open>b\<close>.\<close>

definition acceptLo :: "nat \<Rightarrow> nat" where
  "acceptLo b = (if b = 0xE0 then 0xA0 else if b = 0xF0 then 0x90 else 0x80)"

definition acceptHi :: "nat \<Rightarrow> nat" where
  "acceptHi b = (if b = 0xED then 0x9F else if b = 0xF4 then 0x8F else 0xBF)"

fun DecodeRuneInString :: "string \<Rightarrow> nat \<times> nat" where
  "DecodeRuneInString [] = (RuneError, 0)"
| "DecodeRuneInString (c # s) =
     (let b = byte c in
      if b < 0x80 then (b, 1)
      else if 0xC2 \<le> b \<and> b \<le> 0xDF then
        (case s of
           c1 # _ \<Rightarrow>
             if continuation 0x80 0xBF c1 then ((b mod 32) * 64 + byte c1 mod 64, 2)
             else (RuneError, 1)
         | _ \<Rightarrow> (RuneError, 1))
      else if 0xE0 \<le> b \<and> b \<le> 0xEF then
        (case s of
           c1 # c2 # _ \<Rightarrow>
             if continuation (acceptLo b) (acceptHi b) c1 \<and> continuation 0x80 0xBF c2
             then ((b mod 16) * 4096 + (byte c1 mod 64) * 64 + byte c2 mod 64, 3)
             else (RuneError, 1)
         | _ \<Rightarrow> (RuneError, 1))
      else if 0xF0 \<le> b \<and> b \<le> 0xF4 then
        (case s of
           c1 # c2 # c3 # _ \<Rightarrow>
             if continuation (acceptLo b) (acceptHi b) c1 \<and> continuation 0x80 0xBF c2 \<and>
                continuation 0x80 0xBF c3
             then ((b mod 8) * 262144 + (byte c1 mod 64) * 4096 + (byte c2 mod 64) * 64 +
                   byte c3 mod 64, 4)
             else (RuneError, 1)
         | _ \<Rightarrow> (RuneError, 1))
      else (RuneError, 1))"

text \<open>\<open>isInCharacterRange\<close>: the code points that XML allows.\<close>

definition isInCharacterRange :: "nat \<Rightarrow> bool" where
  "isInCharacterRange r =
     (r = 0x09 \<or> r = 0x0A \<or> r = 0x0D \<or> (0x20 \<le> r \<and> r \<le> 0xD7FF) \<or>
      (0xE000 \<le> r \<and> r \<le> 0xFFFD) \<or> (0x10000 \<le> r \<and> r \<le> 0x10FFFF))"

text \<open>What the printer writes for the character that \<open>s\<close> starts with: a character
  reference for the markup characters and for tab, line feed and carriage return; U+FFFD
  for a character that XML does not allow or a byte that is not UTF-8; the character itself
  otherwise.\<close>

definition escapeRune :: "nat \<Rightarrow> nat \<Rightarrow> string \<Rightarrow> string" where
  "escapeRune r width s =
     (if r = 0x22 then ''&#34;''
      else if r = 0x27 then ''&#39;''
      else if r = byte CHR ''&'' then ''&amp;''
      else if r = byte CHR ''<'' then ''&lt;''
      else if r = byte CHR ''>'' then ''&gt;''
      else if r = 0x09 then ''&#x9;''
      else if r = 0x0A then ''&#xA;''
      else if r = 0x0D then ''&#xD;''
      else if \<not> isInCharacterRange r \<or> (r = RuneError \<and> width = 1)
        then [CHR 0xEF, CHR 0xBF, CHR 0xBD]
      else take width s)"

lemma DecodeRuneInString_width: "s \<noteq> [] \<Longrightarrow> 0 < snd (DecodeRuneInString s)"
  by (cases s) (auto simp: Let_def split: list.splits)

text \<open>\<open>printer.EscapeString\<close>: the text of \<open>s\<close> as character data.\<close>

function EscapeString :: "string \<Rightarrow> string" where
  "EscapeString [] = []"
| "EscapeString (c # s) =
     (case DecodeRuneInString (c # s) of
        (r, width) \<Rightarrow> escapeRune r width (c # s) @ EscapeString (drop width (c # s)))"
  by pat_completeness auto
termination
proof (relation "measure length")
  show "wf (measure (length :: string \<Rightarrow> nat))"
    by simp
next
  fix c :: char and s :: string and x :: "nat \<times> nat" and r width :: nat
  assume "(r, width) = DecodeRuneInString (c # s)"
  then have "0 < width"
    using DecodeRuneInString_width [of "c # s"] by (metis list.distinct(1) snd_conv)
  then show "(drop width (c # s), c # s) \<in> measure length"
    by simp
qed

declare EscapeString.simps [simp del]

text \<open>
  The printer of \<open>xml.MarshalIndent\<close>: what it has written, its prefix and indentation, the
  depth of the element it is in, and the two flags of \<open>writeIndent\<close>.
\<close>

record printer =
  written :: string
  pprefix :: string
  pindent :: string
  pdepth :: int
  indentedIn :: bool
  putNewline :: bool

definition WriteString :: "string \<Rightarrow> printer \<Rightarrow> printer" where
  "WriteString s p = p\<lparr>written := written p @ s\<rparr>"

definition writeIndent :: "int \<Rightarrow> printer \<Rightarrow> printer" where
  "writeIndent depthDelta p =
     (if pprefix p = [] \<and> pindent p = [] then p
      else if depthDelta < 0 \<and> indentedIn p then p\<lparr>pdepth := pdepth p - 1, indentedIn := False\<rparr>
      else
        (let p1 = (if depthDelta < 0 then p\<lparr>pdepth := pdepth p - 1, indentedIn := False\<rparr> else p);
             p2 = (if putNewline p1 then WriteString [CHR 0x0A] p1 else p1\<lparr>putNewline := True\<rparr>);
             p3 = WriteString (pprefix p2 @ concat (replicate (nat (pdepth p2)) (pindent p2))) p2
         in if 0 < depthDelta then p3\<lparr>pdepth := pdepth p3 + 1, indentedIn := True\<rparr> else p3))"

text \<open>\<open>writeStart\<close> and \<open>writeEnd\<close> for names without a name space; an attribute is a
  name and a value.\<close>

definition writeAttr :: "string \<times> string \<Rightarrow> printer \<Rightarrow> printer" where
  "writeAttr attr p =
     WriteString ('' '' @ fst attr @ [CHR ''='', CHR 0x22] @ EscapeString (snd attr) @ [CHR 0x22]) p"

definition writeStart :: "string \<Rightarrow> (string \<times> string) list \<Rightarrow> printer \<Rightarrow> printer" where
  "writeStart name attrs p =
     WriteString ''>'' (fold writeAttr attrs (WriteString (''<'' @ name) (writeIndent 1 p)))"

definition writeEnd :: "string \<Rightarrow> printer \<Rightarrow> printer" where
  "writeEnd name p = WriteString (''</'' @ name @ ''>'') (writeIndent (- 1) p)"

text \<open>
  The two struct types of the sitemap and what \<open>marshalValue\<close> does with them, read off
  their field tags: a \<open>Url\<close> is an element \<open>url\<close> with one child \<open>loc\<close> holding the text
  of \<open>Loc\<close>; a \<open>Urlset\<close> is an element \<open>urlset\<close> with the attribute \<open>xmlns\<close> and one child
  per element of \<open>Urls\<close>.
\<close>

record Url =
  Loc :: string

record Urlset =
  Xmlns :: string
  Urls :: "Url list"

definition marshalUrl :: "Url \<Rightarrow> printer \<Rightarrow> printer" where
  "marshalUrl u p =
     writeEnd ''url'' (writeEnd ''loc'' (WriteString (EscapeString (Loc u))
       (writeStart ''loc'' [] (writeStart ''url'' [] p))))"

definition marshalUrlset :: "Urlset \<Rightarrow> printer \<Rightarrow> printer" where
  "marshalUrlset v p =
     writeEnd ''urlset'' (fold marshalUrl (Urls v) (writeStart ''urlset'' [(''xmlns'', Xmlns v)] p))"

datatype marshal_error = UnsupportedTypeError

text \<open>\<open>xml.MarshalIndent(v, prefix, indent)\<close> for a \<open>Urlset\<close>; no value of the type makes
  the library fail.\<close>

definition MarshalIndent :: "Urlset \<Rightarrow> string \<Rightarrow> string \<Rightarrow> marshal_error + string" where
  "MarshalIndent v pre ind =
     Inr (written (marshalUrlset v
       \<lparr>written = [], pprefix = pre, pindent = ind, pdepth = 0, indentedIn = False,
        putNewline = False\<rparr>))"

text \<open>\<open>xml.Header\<close>.\<close>

definition Header :: string where
  "Header = ''<?xml version='' @ [CHR 0x22] @ ''1.0'' @ [CHR 0x22] @ '' encoding='' @
     [CHR 0x22] @ ''UTF-8'' @ [CHR 0x22] @ ''?>'' @ [CHR 0x0A]"

section \<open>The sitemap encoder\<close>

text \<open>\<open>EncodeXML(links)\<close>.\<close>

definition EncodeXML :: "Link list \<Rightarrow> marshal_error + string" where
  "EncodeXML links =
     (let urls = map (\<lambda>link. \<lparr>Loc = Href link\<rparr>) links;
          urlset = \<lparr>Xmlns = ''http://www.sitemaps.org/schemas/sitemap/0.9'', Urls = urls\<rparr>
      in case MarshalIndent urlset [] ''  '' of
           Inl err \<Rightarrow> Inl err
         | Inr output \<Rightarrow> Inr (Header @ output))"

section \<open>Notions used in the properties\<close>

text \<open>The invariant of uniqueness: the hrefs of the result followed by those of the queue
  are pairwise different, and all of them are marked as visited.\<close>

definition uniqueInv :: "'w crawl \<Rightarrow> bool" where
  "uniqueInv st =
     (distinct (map Href (result st @ map link (queue st))) \<and>
      set (map Href (result st @ map link (queue st))) \<subseteq> visited st)"

text \<open>The hrefs of the warnings on standard output: the pages whose fetch failed.\<close>

fun failedFetches :: "printed list \<Rightarrow> string list" where
  "failedFetches [] = []"
| "failedFetches (WarningFailedToFetch h e # out) = h # failedFetches out"
| "failedFetches (line # out) = failedFetches out"

text \<open>The invariant of the warnings: what was printed since the start warns only of pages
  that are in the result.\<close>

definition warnInv :: "printed list \<Rightarrow> 'w crawl \<Rightarrow> bool" where
  "warnInv out0 st =
     (\<exists>new. stdout (io st) = out0 @ new \<and> set (failedFetches new) \<subseteq> set (map Href (result st)))"

text \<open>
  A synthetic cycle of pages \<open>us\<close>: whenever the client answers the request for the page
  \<open>us ! i\<close> with a document, the links extracted from that document are exactly one link,
  to the next page of the cycle.
\<close>

definition cycleClient :: "'w Client \<Rightarrow> string list \<Rightarrow> bool" where
  "cycleClient client us =
     (\<forall>i < length us. \<forall>w resp w' doc.
        client (us ! i) w = (Some resp, w') \<and> Body resp = Some doc \<longrightarrow>
        map Href (ExtractLinks doc (us ! i)) = [us ! ((i + 1) mod length us)])"

text \<open>
  The nodes of a document in document order (a node before its children, the children from
  first to last): the order in which \<open>walk\<close> visits them.
\<close>

fun nodes :: "Node \<Rightarrow> Node list" where
  "nodes (Node t a d attrs cs) = Node t a d attrs cs # concat (map nodes cs)"

text \<open>The href that \<open>ExtractLinks\<close> makes of the value of an internal \<open>href\<close> attribute.\<close>

definition hrefTarget :: "string \<Rightarrow> string \<Rightarrow> string" where
  "hrefTarget baseDomain v = (if HasPrefix v ''/'' then resolveURL baseDomain v else v)"

text \<open>
  The link that a node yields by itself: for an anchor element, the link of the first
  attribute that is an internal \<open>href\<close>, with the anchor's text; nothing for an anchor
  without such an attribute, and for any other node. The candidates of a document are the
  links that its nodes yield, in document order, before deduplication.
\<close>

definition anchorLink :: "string \<Rightarrow> Node \<Rightarrow> Link option" where
  "anchorLink baseDomain node =
     (if Type node = ElementNode \<and> DataAtom node = atom_A
      then map_option
             (\<lambda>attr. \<lparr>Href = hrefTarget baseDomain (Val attr), Text = TrimSpace (extractText node)\<rparr>)
             (find (\<lambda>attr. Key attr = ''href'' \<and> isInternalLink (Val attr) baseDomain) (Attr node))
      else None)"

definition candidates :: "string \<Rightarrow> Node \<Rightarrow> Link list" where
  "candidates baseDomain n = List.map_filter (anchorLink baseDomain) (nodes n)"

text \<open>Candidates taken in order into the links found so far, each unless its href has
  been seen.\<close>

fun absorb :: "Link list \<Rightarrow> Link list \<times> string set \<Rightarrow> Link list \<times> string set" where
  "absorb [] st = st"
| "absorb (c # cs) (links, seen) =
     absorb cs (if Href c \<in> seen then (links, seen) else (links @ [c], insert (Href c) seen))"

text \<open>
  The sitemap document as the specification describes it, for the texts of the \<open>loc\<close>
  elements in order: the XML declaration, the root \<open>urlset\<close> with the fixed namespace
  attribute, and one \<open>url\<close> element holding one \<open>loc\<close> element per text, indented by two
  spaces a level. \<open>CHR 0x0A\<close> is the line feed and \<open>CHR 0x22\<close> the double quote.
\<close>

definition urlBlock :: "string \<Rightarrow> string" where
  "urlBlock loc = [CHR 0x0A] @ ''  <url>'' @ [CHR 0x0A] @ ''    <loc>'' @ loc @ ''</loc>'' @
     [CHR 0x0A] @ ''  </url>''"

definition sitemapText :: "string list \<Rightarrow> string" where
  "sitemapText locs =
     Header @ ''<urlset xmlns='' @ [CHR 0x22] @ ''http://www.sitemaps.org/schemas/sitemap/0.9'' @
     [CHR 0x22] @ ''>'' @ concat (map urlBlock locs) @
     (if locs = [] then [] else [CHR 0x0A]) @ ''</urlset>''"

text \<open>The bytes that the XML printer writes as they are: ASCII from the space on, but
  for the five markup characters.\<close>

definition plainByte :: "char \<Rightarrow> bool" where
  "plainByte c = (0x20 \<le> byte c \<and> byte c < 0x80 \<and> byte c \<notin> {0x22, 0x26, 0x27, 0x3C, 0x3E})"

text \<open>The printer that \<open>EncodeXML\<close> starts from, and the state it is in between two
  children of the root element.\<close>

definition printer0 :: printer where
  "printer0 = \<lparr>written = [], pprefix = [], pindent = ''  '', pdepth = 0, indentedIn = False,
      putNewline = False\<rparr>"

definition printing :: "printer \<Rightarrow> bool" where
  "printing p = (pprefix p = [] \<and> pindent p = ''  '' \<and> pdepth p = 1 \<and> putNewline p)"

section \<open>Example pages and clients\<close>

text \<open>An anchor with one \<open>href\<close> attribute and a text, and a document around a list of
  nodes.\<close>

definition anchor :: "string \<Rightarrow> string \<Rightarrow> Node" where
  "anchor h t = Node ElementNode atom_A ''a'' [\<lparr>Namespace = [], Key = ''href'', Val = h\<rparr>]
     [Node TextNode 0 t [] []]"

definition page :: "Node list \<Rightarrow> Node" where
  "page ns = Node DocumentNode 0 [] [] [Node ElementNode 0 ''html'' [] ns]"

text \<open>A client that never gets a response, and a site of two pages that link to each
  other; both count the requests in the world.\<close>

definition deadClient :: "nat Client" where
  "deadClient url n = (None, n + 1)"

definition twoPages :: "nat Client" where
  "twoPages url n =
     (if url = ''https://a.com/p'' then (Some \<lparr>StatusCode = 200, Body = Some (page [anchor ''/q'' ''Q''])\<rparr>, n + 1)
      else if url = ''https://a.com/q'' then (Some \<lparr>StatusCode = 200, Body = Some (page [anchor ''/p'' ''P''])\<rparr>, n + 1)
      else (None, n + 1))"

definition pageP :: Link where
  "pageP = \<lparr>Href = ''https://a.com/p'', Text = []\<rparr>"

definition pageQ :: Link where
  "pageQ = \<lparr>Href = ''https://a.com/q'', Text = ''Q''\<rparr>"

definition start :: "nat io" where
  "start = \<lparr>world = 0, stdout = []\<rparr>"

section \<open>The main loop\<close>

declare bfsLoop.simps [simp del]

lemma bfsLoop_Nil: "queue st = [] \<Longrightarrow> bfsLoop maxDepth client st = st"
  by (subst bfsLoop.simps) simp

lemma bfsLoop_Cons:
  "queue st = c # rest \<Longrightarrow>
   bfsLoop maxDepth client st = bfsLoop maxDepth client (crawlStep maxDepth client c st)"
  by (subst bfsLoop.simps) simp

lemma bfsLoop_invariant:
  assumes "P st"
    and "\<And>st c rest. P st \<Longrightarrow> queue st = c # rest \<Longrightarrow> P (crawlStep maxDepth client c st)"
  shows "P (bfsLoop maxDepth client st) \<and> queue (bfsLoop maxDepth client st) = []"
  using assms
proof (induction maxDepth client st rule: bfsLoop.induct)
  case (1 maxDepth client st)
  show ?case
  proof (cases "queue st")
    case Nil
    with "1.prems"(1) show ?thesis by (simp add: bfsLoop_Nil)
  next
    case (Cons c rest)
    have "P (crawlStep maxDepth client c st)"
      using "1.prems" Cons by blast
    then have "P (bfsLoop maxDepth client (crawlStep maxDepth client c st)) \<and>
        queue (bfsLoop maxDepth client (crawlStep maxDepth client c st)) = []"
      using "1.IH" [OF Cons] "1.prems"(2) by blast
    with Cons show ?thesis by (simp add: bfsLoop_Cons)
  qed
qed

section \<open>Runs of the examples\<close>

lemma deadClient_fetch:
  "FetchAndParse ''https://a.com/p'' deadClient start = (Inl Fetching, \<lparr>world = 1, stdout = []\<rparr>)"
  by code_simp

lemma deadClient_run:
  "CrawlBFS [pageP] 1 deadClient start =
     (Inr [pageP], \<lparr>world = 1, stdout = [WarningFailedToFetch ''https://a.com/p'' Fetching]\<rparr>)"
  by code_simp

lemma twoPages_run:
  "CrawlBFS [pageP] 5 twoPages start = (Inr [pageP, pageQ], \<lparr>world = 2, stdout = []\<rparr>)"
  by code_simp

lemma twoPages_links_p:
  "ExtractLinks (page [anchor ''/q'' ''Q'']) ''https://a.com/p'' = [pageQ]"
  by code_simp

lemma twoPages_links_q:
  "ExtractLinks (page [anchor ''/p'' ''P'']) ''https://a.com/q'' =
     [\<lparr>Href = ''https://a.com/p'', Text = ''P''\<rparr>]"
  by code_simp

lemma twoPages_cycle: "cycleClient twoPages [''https://a.com/p'', ''https://a.com/q'']"
proof -
  let ?us = "[''https://a.com/p'', ''https://a.com/q'']"
  have "map Href (ExtractLinks doc (?us ! i)) = [?us ! ((i + 1) mod length ?us)]"
    if "i < length ?us" and "twoPages (?us ! i) w = (Some resp, w') \<and> Body resp = Some doc"
    for i w resp w' doc
  proof -
    from that(1) consider "i = 0" | "i = 1" by (auto simp: less_Suc_eq)
    then show ?thesis
    proof cases
      case 1
      with that(2) have "doc = page [anchor ''/q'' ''Q'']"
        by (auto simp: twoPages_def)
      with 1 show ?thesis by (simp add: twoPages_links_p pageQ_def)
    next
      case 2
      with that(2) have "doc = page [anchor ''/p'' ''P'']"
        by (auto simp: twoPages_def)
      with 2 show ?thesis by (simp add: twoPages_links_q)
    qed
  qed
  then show ?thesis
    unfolding cycleClient_def by blast
qed

section \<open>Properties of the crawl\<close>

subsection \<open>Termination and the depth bound\<close>

lemma FetchAndParse_Inr:
  assumes "FetchAndParse url client s = (Inr doc, s')"
  shows "\<exists>resp w'. client url (world s) = (Some resp, w') \<and> Body resp = Some doc"
proof (cases "Parse url")
  case (Inl err)
  with assms show ?thesis by (simp add: FetchAndParse_def)
next
  case (Inr req)
  obtain resp w where c: "client url (world s) = (resp, w)"
    by (cases "client url (world s)")
  with assms Inr show ?thesis
    by (cases resp) (auto simp: FetchAndParse_def split: if_splits option.splits)
qed

lemma take_Suc_snoc: "i < length us \<Longrightarrow> take i us @ [us ! i] = take (Suc i) us"
  by (simp add: take_Suc_conv_app_nth)

lemma cycle_loop:
  assumes "cycleClient client us" and "distinct us"
  shows "i < length us \<Longrightarrow> int i \<le> k \<Longrightarrow> queue st = [\<lparr>link = l, depth = int i\<rparr>] \<Longrightarrow>
     Href l = us ! i \<Longrightarrow> visited st = set (take (Suc i) us) \<Longrightarrow>
     map Href (result st) = take i us \<Longrightarrow>
     map Href (result (bfsLoop k client st)) = take (length (result (bfsLoop k client st))) us \<and>
     i < length (result (bfsLoop k client st)) \<and>
     length (result (bfsLoop k client st)) \<le> min (length us) (nat k + 1)"
proof (induction "length us - i" arbitrary: i st l)
  case 0
  then show ?case by simp
next
  case (Suc n)
  let ?c = "\<lparr>link = l, depth = int i\<rparr>"
  let ?st1 = "st\<lparr>queue := tl (queue st), result := result st @ [l]\<rparr>"
  have loop: "bfsLoop k client st = bfsLoop k client (crawlStep k client ?c st)"
    using Suc.prems(3) by (rule bfsLoop_Cons)
  have res1: "map Href (result ?st1) = take (Suc i) us"
    using Suc.prems by (simp add: take_Suc_snoc)
  have q1: "queue ?st1 = []"
    using Suc.prems(3) by simp
  have done1: "map Href (result (bfsLoop k client st')) = take (length (result (bfsLoop k client st'))) us \<and>
      i < length (result (bfsLoop k client st')) \<and>
      length (result (bfsLoop k client st')) \<le> min (length us) (nat k + 1)"
    if "queue st' = []" and "result st' = result ?st1" for st' :: "'a crawl"
  proof -
    have "bfsLoop k client st' = st'"
      using that(1) by (rule bfsLoop_Nil)
    moreover have "length (result ?st1) = Suc i"
      using res1 Suc.prems(1) by (metis length_map length_take min.absorb2 Suc_leI)
    ultimately show ?thesis
      using that(2) res1 Suc.prems(1,2) by auto
  qed
  obtain r s where f: "FetchAndParse (Href l) client (io st) = (r, s)"
    by (cases "FetchAndParse (Href l) client (io st)")
  show ?case
  proof (cases "k \<le> int i")
    case True
    then have "crawlStep k client ?c st = ?st1"
      by (simp add: crawlStep_def)
    with loop done1 [of ?st1] q1 show ?thesis by simp
  next
    case False
    show ?thesis
    proof (cases r)
      case (Inl err)
      with False f have "crawlStep k client ?c st =
          ?st1\<lparr>io := println (WarningFailedToFetch (Href l) err) s\<rparr>"
        by (simp add: crawlStep_def)
      with loop done1 [of "?st1\<lparr>io := println (WarningFailedToFetch (Href l) err) s\<rparr>"] q1
      show ?thesis by simp
    next
      case (Inr doc)
      from FetchAndParse_Inr [OF f [unfolded Inr]] obtain resp w'
        where "client (Href l) (world (io st)) = (Some resp, w')" and "Body resp = Some doc"
        by blast
      with assms(1) Suc.prems(1,4)
      have "map Href (ExtractLinks doc (us ! i)) = [us ! ((i + 1) mod length us)]"
        unfolding cycleClient_def by metis
      then obtain nb where nb: "ExtractLinks doc (Href l) = [nb]"
        and hnb: "Href nb = us ! ((i + 1) mod length us)"
        using Suc.prems(4) by (cases "ExtractLinks doc (us ! i)") auto
      show ?thesis
      proof (cases "Suc i < length us")
        case True
        then have m: "(i + 1) mod length us = Suc i" by simp
        have notin: "us ! Suc i \<notin> set (take (Suc i) us)"
        proof
          assume "us ! Suc i \<in> set (take (Suc i) us)"
          then obtain j where "j < Suc i" and "take (Suc i) us ! j = us ! Suc i"
            using True by (auto simp: in_set_conv_nth)
          then have "us ! j = us ! Suc i" by simp
          with assms(2) True \<open>j < Suc i\<close> show False
            by (simp add: nth_eq_iff_index_eq)
        qed
        let ?st2 = "?st1\<lparr>visited := insert (us ! Suc i) (visited st),
            queue := [\<lparr>link = nb, depth = int i + 1\<rparr>], io := s\<rparr>"
        have step: "crawlStep k client ?c st = ?st2"
          using False f Inr nb hnb m notin Suc.prems(3,5)
          by (simp add: crawlStep_def)
        have "map Href (result (bfsLoop k client ?st2)) =
            take (length (result (bfsLoop k client ?st2))) us \<and>
          Suc i < length (result (bfsLoop k client ?st2)) \<and>
          length (result (bfsLoop k client ?st2)) \<le> min (length us) (nat k + 1)"
        proof (rule Suc.hyps(1) [of "Suc i" ?st2 nb])
          show "n = length us - Suc i" using Suc.hyps(2) by simp
          show "Suc i < length us" by (rule True)
          show "int (Suc i) \<le> k" using False by simp
          show "queue ?st2 = [\<lparr>link = nb, depth = int (Suc i)\<rparr>]" by simp
          show "Href nb = us ! Suc i" using hnb m by simp
          show "visited ?st2 = set (take (Suc (Suc i)) us)"
            using Suc.prems(5) True by (simp add: take_Suc_conv_app_nth [of "Suc i"])
          show "map Href (result ?st2) = take (Suc i) us"
            using res1 by simp
        qed
        with loop step show ?thesis by auto
      next
        case last: False
        with Suc.prems(1) have n: "length us = Suc i" by simp
        then have m: "(i + 1) mod length us = 0" by simp
        have "us ! 0 \<in> set (take (Suc i) us)"
          using n by (metis Suc.prems(1) length_greater_0_conv list.size(3) not_less0 nth_mem
              take_all order_refl zero_less_Suc)
        then have step: "crawlStep k client ?c st = ?st1\<lparr>visited := visited st, queue := [], io := s\<rparr>"
          using False f Inr nb hnb m Suc.prems(3,5)
          by (simp add: crawlStep_def)
        with loop done1 [of "?st1\<lparr>visited := visited st, queue := [], io := s\<rparr>"]
        show ?thesis by simp
      qed
    qed
  qed
qed

text \<open>
  C1. \<open>CrawlBFS\<close> terminates on every input: \<open>bfsLoop\<close> is a total function, by the
  termination proof that goes with its definition, for every client, whatever documents it
  serves and however many. On a synthetic cycle of \<open>N\<close> pages each linking to the next,
  the crawl from the cycle's first page with \<open>maxDepth = k\<close> (\<open>k\<close> not negative) returns a
  result that is a prefix of the cycle, hence of distinct pages, of at most
  \<open>min N (k + 1)\<close> pages.
\<close>

theorem CrawlBFS_cycle_bound:
  assumes "cycleClient client us" and "distinct us" and "us \<noteq> []"
    and "Href seed = us ! 0" and "0 \<le> k"
  shows "\<exists>r s'. CrawlBFS (seed # others) k client s = (Inr r, s') \<and>
           map Href r = take (length r) us \<and> distinct (map Href r) \<and>
           1 \<le> length r \<and> length r \<le> min (length us) (nat k + 1)"
proof -
  let ?init = "\<lparr>visited = {Href seed}, queue = [\<lparr>link = seed, depth = 0\<rparr>], result = [], io = s\<rparr>"
  have v: "visited ?init = set (take (Suc 0) us)"
    using assms(3,4) by (cases us) simp_all
  have "map Href (result (bfsLoop k client ?init)) =
      take (length (result (bfsLoop k client ?init))) us \<and>
    0 < length (result (bfsLoop k client ?init)) \<and>
    length (result (bfsLoop k client ?init)) \<le> min (length us) (nat k + 1)"
    using assms(3,4,5) v
    by (intro cycle_loop [OF assms(1,2), of 0 k ?init seed]) simp_all
  moreover have "CrawlBFS (seed # others) k client s =
      (Inr (result (bfsLoop k client ?init)), io (bfsLoop k client ?init))"
    by (simp add: CrawlBFS_def Let_def)
  ultimately show ?thesis
    using assms(2) by (metis One_nat_def Suc_leI distinct_take)
qed

theorem CrawlBFS_cycle_bound_witness:
  "cycleClient twoPages [''https://a.com/p'', ''https://a.com/q''] \<and>
   distinct [''https://a.com/p'', ''https://a.com/q''] \<and>
   Href pageP = [''https://a.com/p'', ''https://a.com/q''] ! 0 \<and>
   CrawlBFS [pageP] 5 twoPages start = (Inr [pageP, pageQ], \<lparr>world = 2, stdout = []\<rparr>) \<and>
   map Href [pageP, pageQ] = take 2 [''https://a.com/p'', ''https://a.com/q''] \<and>
   length [pageP, pageQ] \<le> min (length [''https://a.com/p'', ''https://a.com/q'']) (nat 5 + 1)"
  using CrawlBFS_cycle_bound [OF twoPages_cycle, of pageP 5 "[]" start] twoPages_run
    twoPages_cycle
  by (simp add: pageP_def pageQ_def)

subsection \<open>Uniqueness\<close>

lemma enqueue_unique:
  assumes "enqueue d ns (vis, q) = (vis', q')"
    and "distinct (map Href (r @ map link q))"
    and "set (map Href (r @ map link q)) \<subseteq> vis"
  shows "distinct (map Href (r @ map link q')) \<and> set (map Href (r @ map link q')) \<subseteq> vis'"
  using assms
proof (induction ns arbitrary: vis q)
  case Nil
  then show ?case by simp
next
  case (Cons n ns)
  show ?case
  proof (cases "Href n \<in> vis")
    case True
    with Cons.prems Cons.IH [of vis q] show ?thesis by simp
  next
    case False
    let ?q = "q @ [\<lparr>link = n, depth = d + 1\<rparr>]"
    from False Cons.prems(1) have e: "enqueue d ns (insert (Href n) vis, ?q) = (vis', q')"
      by simp
    from False Cons.prems(2,3) have "distinct (map Href (r @ map link ?q))"
      by auto
    moreover from Cons.prems(3) have "set (map Href (r @ map link ?q)) \<subseteq> insert (Href n) vis"
      by auto
    ultimately show ?thesis using Cons.IH [OF e] by blast
  qed
qed



lemma crawlStep_unique:
  assumes "uniqueInv st" and "queue st = c # rest"
  shows "uniqueInv (crawlStep maxDepth client c st)"
proof -
  let ?st1 = "st\<lparr>queue := tl (queue st), result := result st @ [link c]\<rparr>"
  have st1: "uniqueInv ?st1"
    using assms by (simp add: uniqueInv_def)
  obtain r s where f: "FetchAndParse (Href (link c)) client (io ?st1) = (r, s)"
    by (cases "FetchAndParse (Href (link c)) client (io ?st1)")
  show ?thesis
  proof (cases "maxDepth \<le> depth c")
    case True
    with st1 show ?thesis by (simp add: crawlStep_def)
  next
    case False
    show ?thesis
    proof (cases r)
      case (Inl err)
      with False f st1 show ?thesis by (simp add: crawlStep_def uniqueInv_def)
    next
      case (Inr doc)
      obtain vis q where e:
        "enqueue (depth c) (ExtractLinks doc (Href (link c))) (visited st, rest) = (vis, q)"
        by (cases "enqueue (depth c) (ExtractLinks doc (Href (link c))) (visited st, rest)")
      from st1 assms(2) have "distinct (map Href ((result st @ [link c]) @ map link rest))"
        and "set (map Href ((result st @ [link c]) @ map link rest)) \<subseteq> visited st"
        by (simp_all add: uniqueInv_def)
      from enqueue_unique [OF e this]
      have "distinct (map Href ((result st @ [link c]) @ map link q))"
        and "set (map Href ((result st @ [link c]) @ map link q)) \<subseteq> vis"
        by blast+
      with False f Inr e assms(2) show ?thesis by (simp add: crawlStep_def uniqueInv_def)
    qed
  qed
qed

text \<open>
  C2. Global uniqueness: whatever the seed list, \<open>maxDepth\<close> and the client are, when
  \<open>CrawlBFS\<close> returns a result (it does for every non-empty seed list), each href occurs at
  most once in it. The invariant \<open>uniqueInv\<close> behind it says that no href is ever in the
  result and the queue twice.
\<close>

theorem CrawlBFS_unique:
  assumes "CrawlBFS links maxDepth client s = (Inr r, s')"
  shows "distinct (map Href r)"
proof (cases links)
  case Nil
  with assms show ?thesis by (simp add: CrawlBFS_def)
next
  case (Cons first others)
  let ?init = "\<lparr>visited = {Href first}, queue = [\<lparr>link = first, depth = 0\<rparr>], result = [], io = s\<rparr>"
  have "uniqueInv ?init"
    by (simp add: uniqueInv_def)
  then have "uniqueInv (bfsLoop maxDepth client ?init) \<and> queue (bfsLoop maxDepth client ?init) = []"
    by (rule bfsLoop_invariant) (rule crawlStep_unique)
  moreover from assms Cons have "r = result (bfsLoop maxDepth client ?init)"
    by (simp add: CrawlBFS_def Let_def)
  ultimately show ?thesis by (simp add: uniqueInv_def)
qed

theorem CrawlBFS_unique_witness:
  "CrawlBFS [pageP] 5 twoPages start = (Inr [pageP, pageQ], \<lparr>world = 2, stdout = []\<rparr>) \<and>
   distinct (map Href [pageP, pageQ])"
  using CrawlBFS_unique [OF twoPages_run] twoPages_run by simp

subsection \<open>The seed\<close>

text \<open>
  C3. For every non-empty seed list and every \<open>maxDepth\<close>, \<open>CrawlBFS\<close> on the list returns
  what it returns on the list's first element alone, standard output and world included:
  only the first seed roots the traversal.
\<close>

theorem CrawlBFS_first_seed_only:
  "CrawlBFS (first # others) maxDepth client s = CrawlBFS [first] maxDepth client s"
  by (simp add: CrawlBFS_def)

text \<open>
  C4. For every non-empty seed list, \<open>CrawlBFS\<close> with \<open>maxDepth = 0\<close> returns exactly the
  one-element sequence of the first seed, and returns the world and the standard output it
  was given: whatever the client is, it is never called.
\<close>

theorem CrawlBFS_depth_zero:
  "CrawlBFS (first # others) 0 client s = (Inr [first], s)"
  by (simp add: CrawlBFS_def crawlStep_def bfsLoop_Cons bfsLoop_Nil)

subsection \<open>Errors\<close>

lemma failedFetches_append: "failedFetches (xs @ ys) = failedFetches xs @ failedFetches ys"
  by (induction xs rule: failedFetches.induct) simp_all

lemma FetchAndParse_stdout:
  assumes "FetchAndParse url client s = (r, s')"
  shows "\<exists>new. stdout s' = stdout s @ new \<and> failedFetches new = []"
proof (cases "Parse url")
  case (Inl err)
  with assms have "stdout s' = stdout s @ [ErrorCreatingRequest err]"
    by (auto simp: FetchAndParse_def println_def)
  then show ?thesis by simp
next
  case (Inr req)
  obtain resp w where c: "client url (world s) = (resp, w)"
    by (cases "client url (world s)")
  show ?thesis
  proof (cases resp)
    case None
    with assms Inr c have "stdout s' = stdout s @ []"
      by (auto simp: FetchAndParse_def)
    then show ?thesis by (metis failedFetches.simps(1))
  next
    case (Some rsp)
    with assms Inr c have "stdout s' = stdout s @ [] \<or> stdout s' = stdout s @ [ErrorParsingHTML]"
      by (auto simp: FetchAndParse_def println_def split: if_splits option.splits)
    then show ?thesis
      by (metis failedFetches.simps(1) failedFetches.simps(4))
  qed
qed
lemma crawlStep_warn:
  assumes "warnInv out0 st" and "queue st = c # rest"
  shows "warnInv out0 (crawlStep maxDepth client c st)"
proof -
  from assms(1) obtain new where new: "stdout (io st) = out0 @ new"
    and sub: "set (failedFetches new) \<subseteq> set (map Href (result st))"
    by (auto simp: warnInv_def)
  let ?st1 = "st\<lparr>queue := tl (queue st), result := result st @ [link c]\<rparr>"
  obtain r s where f: "FetchAndParse (Href (link c)) client (io st) = (r, s)"
    by (cases "FetchAndParse (Href (link c)) client (io st)")
  from FetchAndParse_stdout [OF f] obtain more where more: "stdout s = stdout (io st) @ more"
    and none: "failedFetches more = []"
    by blast
  show ?thesis
  proof (cases "maxDepth \<le> depth c")
    case True
    with new sub show ?thesis
      by (auto simp: crawlStep_def warnInv_def)
  next
    case False
    show ?thesis
    proof (cases r)
      case (Inl err)
      have "stdout (println (WarningFailedToFetch (Href (link c)) err) s) =
          out0 @ (new @ more @ [WarningFailedToFetch (Href (link c)) err])"
        using new more by (simp add: println_def)
      moreover have "set (failedFetches (new @ more @ [WarningFailedToFetch (Href (link c)) err]))
          \<subseteq> set (map Href (result st @ [link c]))"
        using sub none by (auto simp: failedFetches_append)
      ultimately show ?thesis
        using False f Inl unfolding warnInv_def crawlStep_def by (auto simp: Let_def)
    next
      case (Inr doc)
      obtain vis q where e:
        "enqueue (depth c) (ExtractLinks doc (Href (link c))) (visited st, tl (queue st)) = (vis, q)"
        by (cases "enqueue (depth c) (ExtractLinks doc (Href (link c))) (visited st, tl (queue st))")
      have "stdout s = out0 @ (new @ more)"
        using new more by simp
      moreover have "set (failedFetches (new @ more)) \<subseteq> set (map Href (result st @ [link c]))"
        using sub none by (auto simp: failedFetches_append)
      ultimately show ?thesis
        using False f Inr e unfolding warnInv_def crawlStep_def by (auto simp: Let_def)
    qed
  qed
qed

text \<open>
  C5. \<open>CrawlBFS\<close> returns an error exactly when the seed list is empty, and then it returns
  the world and the standard output it was given (no request is made). When it returns a
  result, every page whose fetch failed during the crawl (it is named by a warning printed
  since the start) is in the result. A failed fetch is swallowed: the loop goes on from the
  state in which the failed node has been moved to the result, the warning printed, and the
  rest of the queue left as it was.
\<close>

theorem CrawlBFS_errors:
  "(isl (fst (CrawlBFS links maxDepth client s)) \<longleftrightarrow> links = []) \<and>
   CrawlBFS [] maxDepth client s = (Inl NoLinksToTraverse, s) \<and>
   (\<forall>r s'. CrawlBFS links maxDepth client s = (Inr r, s') \<longrightarrow>
      (\<exists>new. stdout s' = stdout s @ new \<and> set (failedFetches new) \<subseteq> set (map Href r))) \<and>
   (\<forall>(st :: 'w crawl) c rest err s1.
      queue st = c # rest \<and> depth c < maxDepth \<and>
      FetchAndParse (Href (link c)) client (io st) = (Inl err, s1) \<longrightarrow>
      bfsLoop maxDepth client st =
        bfsLoop maxDepth client
          (st\<lparr>queue := rest, result := result st @ [link c],
              io := println (WarningFailedToFetch (Href (link c)) err) s1\<rparr>))"
proof (intro conjI allI impI)
  show "isl (fst (CrawlBFS links maxDepth client s)) \<longleftrightarrow> links = []"
    by (cases links) (simp_all add: CrawlBFS_def Let_def)
  show "CrawlBFS [] maxDepth client s = (Inl NoLinksToTraverse, s)"
    by (simp add: CrawlBFS_def)
next
  fix r s'
  assume run: "CrawlBFS links maxDepth client s = (Inr r, s')"
  then obtain first others where links: "links = first # others"
    by (cases links) (auto simp: CrawlBFS_def)
  let ?init = "\<lparr>visited = {Href first}, queue = [\<lparr>link = first, depth = 0\<rparr>], result = [], io = s\<rparr>"
  have "warnInv (stdout s) ?init"
    by (simp add: warnInv_def)
  then have "warnInv (stdout s) (bfsLoop maxDepth client ?init) \<and>
      queue (bfsLoop maxDepth client ?init) = []"
    by (rule bfsLoop_invariant) (rule crawlStep_warn)
  moreover from run links have "r = result (bfsLoop maxDepth client ?init)"
    and "s' = io (bfsLoop maxDepth client ?init)"
    by (simp_all add: CrawlBFS_def Let_def)
  ultimately show "\<exists>new. stdout s' = stdout s @ new \<and> set (failedFetches new) \<subseteq> set (map Href r)"
    by (simp add: warnInv_def)
next
  fix st :: "'w crawl" and c rest err s1
  assume a: "queue st = c # rest \<and> depth c < maxDepth \<and>
      FetchAndParse (Href (link c)) client (io st) = (Inl err, s1)"
  then have "crawlStep maxDepth client c st =
      st\<lparr>queue := rest, result := result st @ [link c],
         io := println (WarningFailedToFetch (Href (link c)) err) s1\<rparr>"
    by (simp add: crawlStep_def)
  with a show "bfsLoop maxDepth client st =
      bfsLoop maxDepth client
        (st\<lparr>queue := rest, result := result st @ [link c],
            io := println (WarningFailedToFetch (Href (link c)) err) s1\<rparr>)"
    by (simp add: bfsLoop_Cons)
qed

theorem CrawlBFS_errors_witness:
  "\<not> isl (fst (CrawlBFS [pageP] 1 deadClient start)) \<and>
   CrawlBFS [] 1 deadClient start = (Inl NoLinksToTraverse, start) \<and>
   CrawlBFS [pageP] 1 deadClient start =
     (Inr [pageP], \<lparr>world = 1, stdout = [WarningFailedToFetch ''https://a.com/p'' Fetching]\<rparr>) \<and>
   set (failedFetches [WarningFailedToFetch ''https://a.com/p'' Fetching]) \<subseteq> set (map Href [pageP]) \<and>
   bfsLoop 1 deadClient
     \<lparr>visited = {''https://a.com/p''}, queue = [\<lparr>link = pageP, depth = 0\<rparr>], result = [],
      io = start\<rparr> =
   bfsLoop 1 deadClient
     \<lparr>visited = {''https://a.com/p''}, queue = [], result = [pageP],
      io = \<lparr>world = 1, stdout = [WarningFailedToFetch ''https://a.com/p'' Fetching]\<rparr>\<rparr>"
proof -
  note facts = CrawlBFS_errors [of "[pageP]" 1 deadClient start]
  let ?c = "\<lparr>link = pageP, depth = 0\<rparr>"
  let ?st = "\<lparr>visited = {''https://a.com/p''}, queue = [?c], result = [], io = start\<rparr>"
  have pre: "queue ?st = ?c # [] \<and> depth ?c < 1 \<and>
      FetchAndParse (Href (link ?c)) deadClient (io ?st) =
        (Inl Fetching, \<lparr>world = 1, stdout = []\<rparr>)"
    using deadClient_fetch by (simp add: pageP_def)
  from facts have "\<forall>(st :: nat crawl) c rest err s1.
      queue st = c # rest \<and> depth c < 1 \<and>
      FetchAndParse (Href (link c)) deadClient (io st) = (Inl err, s1) \<longrightarrow>
      bfsLoop 1 deadClient st =
        bfsLoop 1 deadClient
          (st\<lparr>queue := rest, result := result st @ [link c],
              io := println (WarningFailedToFetch (Href (link c)) err) s1\<rparr>)"
    by (elim conjE)
  from this [rule_format, OF pre]
  have "bfsLoop 1 deadClient ?st =
      bfsLoop 1 deadClient
        \<lparr>visited = {''https://a.com/p''}, queue = [], result = [pageP],
         io = \<lparr>world = 1, stdout = [WarningFailedToFetch ''https://a.com/p'' Fetching]\<rparr>\<rparr>"
    by (simp add: println_def pageP_def)
  with facts deadClient_run show ?thesis
    by (simp add: pageP_def)
qed

section \<open>Properties of the link extractor\<close>

lemma absorb_append: "absorb (xs @ ys) st = absorb ys (absorb xs st)"
  by (induction xs st rule: absorb.induct) simp_all

lemma scanAttrs_absorb:
  "scanAttrs baseDomain node attrs st =
     absorb (case find (\<lambda>attr. Key attr = ''href'' \<and> isInternalLink (Val attr) baseDomain) attrs of
               None \<Rightarrow> []
             | Some attr \<Rightarrow> [\<lparr>Href = hrefTarget baseDomain (Val attr),
                             Text = TrimSpace (extractText node)\<rparr>]) st"
proof (induction attrs)
  case Nil
  then show ?case by (cases st) simp
next
  case (Cons attr rest)
  then show ?case by (cases st) (simp add: hrefTarget_def Let_def)
qed

lemma map_filter_Cons:
  "List.map_filter f (x # xs) = (case f x of None \<Rightarrow> [] | Some y \<Rightarrow> [y]) @ List.map_filter f xs"
  by (simp add: List.map_filter_def split: option.splits)

lemma map_filter_append: "List.map_filter f (xs @ ys) = List.map_filter f xs @ List.map_filter f ys"
  by (simp add: List.map_filter_def)

lemma map_filter_concat:
  "List.map_filter f (concat xss) = concat (map (List.map_filter f) xss)"
  by (induction xss) (simp_all add: map_filter_append List.map_filter_simps)

lemma candidates_children:
  "List.map_filter (anchorLink baseDomain) (concat (map nodes cs)) =
     concat (map (candidates baseDomain) cs)"
  by (induction cs) (simp_all add: map_filter_append candidates_def List.map_filter_simps)

lemma candidates_Node:
  "candidates baseDomain (Node t a d attrs cs) =
     (case anchorLink baseDomain (Node t a d attrs cs) of None \<Rightarrow> [] | Some l \<Rightarrow> [l]) @
     concat (map (candidates baseDomain) cs)"
proof -
  have "candidates baseDomain (Node t a d attrs cs) =
      (case anchorLink baseDomain (Node t a d attrs cs) of None \<Rightarrow> [] | Some l \<Rightarrow> [l]) @
      List.map_filter (anchorLink baseDomain) (concat (map nodes cs))"
    unfolding candidates_def nodes.simps by (rule map_filter_Cons)
  then show ?thesis
    by (simp only: candidates_children)
qed

lemma walk_absorb:
  "walk baseDomain n st = absorb (candidates baseDomain n) st"
  "walkChildren baseDomain cs st = absorb (concat (map (candidates baseDomain) cs)) st"
proof (induction baseDomain n st and baseDomain cs st rule: walk_walkChildren.induct)
  case (1 baseDomain t a d attrs cs st)
  let ?node = "Node t a d attrs cs"
  let ?own = "case anchorLink baseDomain ?node of None \<Rightarrow> [] | Some l \<Rightarrow> [l]"
  let ?st = "if t = ElementNode \<and> a = atom_A then scanAttrs baseDomain ?node attrs st else st"
  have own: "?st = absorb ?own st"
  proof (cases "t = ElementNode \<and> a = atom_A")
    case True
    let ?found = "case find (\<lambda>attr. Key attr = ''href'' \<and> isInternalLink (Val attr) baseDomain) attrs of
           None \<Rightarrow> []
         | Some attr \<Rightarrow> [\<lparr>Href = hrefTarget baseDomain (Val attr),
                         Text = TrimSpace (extractText ?node)\<rparr>]"
    have "?st = scanAttrs baseDomain ?node attrs st"
      using True by simp
    moreover have "scanAttrs baseDomain ?node attrs st = absorb ?found st"
      by (rule scanAttrs_absorb)
    moreover have "?own = ?found"
      using True by (simp add: anchorLink_def split: option.splits del: extractText.simps)
    ultimately show ?thesis
      by (simp only:)
  next
    case False
    then have "anchorLink baseDomain ?node = None"
      by (auto simp: anchorLink_def)
    with False show ?thesis by auto
  qed
  have "walk baseDomain ?node st = walkChildren baseDomain cs ?st"
    by simp
  also have "\<dots> = absorb (concat (map (candidates baseDomain) cs)) ?st"
    by (rule "1.IH")
  also have "\<dots> = absorb (?own @ concat (map (candidates baseDomain) cs)) st"
    by (simp only: own absorb_append)
  also have "\<dots> = absorb (candidates baseDomain ?node) st"
    by (simp only: candidates_Node)
  finally show ?case .
next
  case (2 baseDomain st)
  then show ?case by simp
next
  case (3 baseDomain child rest st)
  then show ?case by (simp add: absorb_append)
qed

lemma ExtractLinks_absorb: "ExtractLinks n baseDomain = fst (absorb (candidates baseDomain n) ([], {}))"
  by (simp add: ExtractLinks_def walk_absorb)

lemma absorb_filter:
  assumes "seen = set (map Href links)"
  shows "filter (\<lambda>l. Href l = h) (fst (absorb cs (links, seen))) =
     (if h \<in> seen then filter (\<lambda>l. Href l = h) links
      else take 1 (filter (\<lambda>c. Href c = h) cs))"
  using assms
proof (induction cs arbitrary: links seen)
  case Nil
  have "filter (\<lambda>l. Href l = h) links = []" if "h \<notin> set (map Href links)"
    using that by (auto simp: filter_empty_conv)
  with Nil show ?case by simp
next
  case (Cons c cs)
  show ?case
  proof (cases "Href c \<in> seen")
    case True
    with Cons.IH [of seen links] Cons.prems show ?thesis by auto
  next
    case False
    have fresh: "filter (\<lambda>l. Href l = Href c) links = []"
    proof -
      have "Href c \<notin> Href ` set links"
        using False Cons.prems by simp
      then have "\<forall>l \<in> set links. Href l \<noteq> Href c"
        by (metis imageI)
      then show ?thesis
        by (simp add: filter_empty_conv)
    qed
    have "insert (Href c) seen = set (map Href (links @ [c]))"
      using Cons.prems by simp
    from Cons.IH [OF this]
    have "filter (\<lambda>l. Href l = h) (fst (absorb cs (links @ [c], insert (Href c) seen))) =
        (if h \<in> insert (Href c) seen then filter (\<lambda>l. Href l = h) (links @ [c])
         else take 1 (filter (\<lambda>c. Href c = h) cs))" .
    with False fresh show ?thesis
      by (cases "h = Href c") auto
  qed
qed

text \<open>
  C8. In-page deduplication: for every document, base domain and href \<open>h\<close>, the links with
  href \<open>h\<close> in the output of \<open>ExtractLinks\<close> are exactly the first candidate with href \<open>h\<close>
  (none when there is no such candidate). So when several anchors yield the same resolved
  href, the output has exactly one link with that href, the one of the anchor that comes
  first in document order, with that anchor's text; the later ones are dropped.
\<close>

theorem ExtractLinks_first_wins:
  "filter (\<lambda>l. Href l = h) (ExtractLinks n baseDomain) =
     take 1 (filter (\<lambda>c. Href c = h) (candidates baseDomain n))"
  by (simp add: ExtractLinks_absorb absorb_filter)

subsection \<open>The internal-link filter\<close>

lemma candidates_iff:
  "c \<in> set (candidates baseDomain n) \<longleftrightarrow> (\<exists>node \<in> set (nodes n). anchorLink baseDomain node = Some c)"
  unfolding candidates_def List.map_filter_def by force

lemma anchorLink_Some_iff:
  "anchorLink baseDomain node = Some c \<longleftrightarrow>
     Type node = ElementNode \<and> DataAtom node = atom_A \<and>
     (\<exists>attr.
        find (\<lambda>a. Key a = ''href'' \<and> (prefix ''/'' (Val a) \<or> prefix baseDomain (Val a)))
          (Attr node) = Some attr \<and>
        c = \<lparr>Href = (if prefix ''/'' (Val attr) then resolveURL baseDomain (Val attr)
                       else Val attr),
              Text = TrimSpace (extractText node)\<rparr>)"
proof (cases "Type node = ElementNode \<and> DataAtom node = atom_A")
  case True
  then have "anchorLink baseDomain node =
      map_option (\<lambda>attr. \<lparr>Href = (if prefix ''/'' (Val attr) then resolveURL baseDomain (Val attr)
                       else Val attr), Text = TrimSpace (extractText node)\<rparr>)
        (find (\<lambda>a. Key a = ''href'' \<and> (prefix ''/'' (Val a) \<or> prefix baseDomain (Val a)))
          (Attr node))"
    by (simp add: anchorLink_def hrefTarget_def isInternalLink_def HasPrefix_def)
  with True show ?thesis
    by (simp only: map_option_eq_Some simp_thms) metis
next
  case False
  then show ?thesis by (auto simp: anchorLink_def)
qed

lemma ExtractLinks_hrefs:
  "(\<exists>l \<in> set (ExtractLinks n baseDomain). Href l = h) \<longleftrightarrow>
   (\<exists>c \<in> set (candidates baseDomain n). Href c = h)"
proof -
  have "(\<exists>l \<in> set (ExtractLinks n baseDomain). Href l = h) \<longleftrightarrow>
      filter (\<lambda>l. Href l = h) (ExtractLinks n baseDomain) \<noteq> []"
    by (simp add: filter_empty_conv)
  also have "\<dots> \<longleftrightarrow> take 1 (filter (\<lambda>c. Href c = h) (candidates baseDomain n)) \<noteq> []"
    by (simp only: ExtractLinks_first_wins)
  also have "\<dots> \<longleftrightarrow> filter (\<lambda>c. Href c = h) (candidates baseDomain n) \<noteq> []"
    by (cases "filter (\<lambda>c. Href c = h) (candidates baseDomain n)") simp_all
  also have "\<dots> \<longleftrightarrow> (\<exists>c \<in> set (candidates baseDomain n). Href c = h)"
    by (simp add: filter_empty_conv)
  finally show ?thesis .
qed

lemma ExtractLinks_one_anchor:
  "ExtractLinks (page [anchor v t]) baseDomain =
     (if prefix ''/'' v \<or> prefix baseDomain v
      then [\<lparr>Href = (if prefix ''/'' v then resolveURL baseDomain v else v),
             Text = TrimSpace (Join (Fields t) '' '')\<rparr>]
      else [])"
  by (simp add: ExtractLinks_def page_def anchor_def isInternalLink_def HasPrefix_def atom_A_def
      Let_def)

lemma other_excluded: "ExtractLinks (page [anchor ''https://other.com/x'' ''X'']) ''https://a.com'' = []"
  by code_simp

lemma relative_included:
  "ExtractLinks (page [anchor ''/x'' ''X'']) ''https://a.com'' = [\<lparr>Href = ''https://a.com/x'', Text = ''X''\<rparr>]"
  by code_simp

text \<open>
  C9. Internal-link filter: an href \<open>h\<close> is among the hrefs that \<open>ExtractLinks\<close> returns
  exactly when some anchor of the document has, as its first \<open>href\<close> attribute that starts
  with \<open>/\<close> or has \<open>baseDomain\<close> as a literal prefix, an attribute whose value resolves
  to \<open>h\<close> (a value that starts with \<open>/\<close> is resolved against \<open>baseDomain\<close>, any other is
  taken as it is). For a page with one anchor with one \<open>href\<close> attribute, the link is kept
  if and only if the value starts with \<open>/\<close> or with \<open>baseDomain\<close>. In particular, with
  \<open>baseDomain = https://a.com\<close>, the href \<open>https://other.com/x\<close> is excluded and the href
  \<open>/x\<close> is included as \<open>https://a.com/x\<close>.
\<close>

theorem ExtractLinks_internal_filter:
  "((\<exists>l \<in> set (ExtractLinks n baseDomain). Href l = h) \<longleftrightarrow>
      (\<exists>node \<in> set (nodes n). \<exists>attr.
         Type node = ElementNode \<and> DataAtom node = atom_A \<and>
         find (\<lambda>a. Key a = ''href'' \<and> (prefix ''/'' (Val a) \<or> prefix baseDomain (Val a)))
           (Attr node) = Some attr \<and>
         h = (if prefix ''/'' (Val attr) then resolveURL baseDomain (Val attr) else Val attr))) \<and>
   ExtractLinks (page [anchor v t]) baseDomain =
     (if prefix ''/'' v \<or> prefix baseDomain v
      then [\<lparr>Href = (if prefix ''/'' v then resolveURL baseDomain v else v),
             Text = TrimSpace (Join (Fields t) '' '')\<rparr>]
      else []) \<and>
   ExtractLinks (page [anchor ''https://other.com/x'' ''X'']) ''https://a.com'' = [] \<and>
   ExtractLinks (page [anchor ''/x'' ''X'']) ''https://a.com'' =
     [\<lparr>Href = ''https://a.com/x'', Text = ''X''\<rparr>]"
proof (intro conjI)
  show "(\<exists>l \<in> set (ExtractLinks n baseDomain). Href l = h) \<longleftrightarrow>
      (\<exists>node \<in> set (nodes n). \<exists>attr.
         Type node = ElementNode \<and> DataAtom node = atom_A \<and>
         find (\<lambda>a. Key a = ''href'' \<and> (prefix ''/'' (Val a) \<or> prefix baseDomain (Val a)))
           (Attr node) = Some attr \<and>
         h = (if prefix ''/'' (Val attr) then resolveURL baseDomain (Val attr) else Val attr))"
    (is "?kept \<longleftrightarrow> ?internal")
  proof
    assume ?kept
    then obtain c where "c \<in> set (candidates baseDomain n)" and h: "Href c = h"
      unfolding ExtractLinks_hrefs by blast
    then obtain node where node: "node \<in> set (nodes n)" and "anchorLink baseDomain node = Some c"
      unfolding candidates_iff by blast
    then obtain attr where "Type node = ElementNode" and "DataAtom node = atom_A"
      and "find (\<lambda>a. Key a = ''href'' \<and> (prefix ''/'' (Val a) \<or> prefix baseDomain (Val a)))
          (Attr node) = Some attr"
      and "c = \<lparr>Href = (if prefix ''/'' (Val attr) then resolveURL baseDomain (Val attr)
                        else Val attr),
               Text = TrimSpace (extractText node)\<rparr>"
      unfolding anchorLink_Some_iff by blast
    with h have "Type node = ElementNode \<and> DataAtom node = atom_A \<and>
        find (\<lambda>a. Key a = ''href'' \<and> (prefix ''/'' (Val a) \<or> prefix baseDomain (Val a)))
          (Attr node) = Some attr \<and>
        h = (if prefix ''/'' (Val attr) then resolveURL baseDomain (Val attr) else Val attr)"
      by simp
    with node show ?internal by blast
  next
    assume ?internal
    then obtain node attr where node: "node \<in> set (nodes n)"
      and a: "Type node = ElementNode" "DataAtom node = atom_A"
        "find (\<lambda>a. Key a = ''href'' \<and> (prefix ''/'' (Val a) \<or> prefix baseDomain (Val a)))
          (Attr node) = Some attr"
      and h: "h = (if prefix ''/'' (Val attr) then resolveURL baseDomain (Val attr) else Val attr)"
      by blast
    let ?c = "\<lparr>Href = h, Text = TrimSpace (extractText node)\<rparr>"
    have "anchorLink baseDomain node = Some ?c"
      unfolding anchorLink_Some_iff using a h by blast
    with node have "?c \<in> set (candidates baseDomain n)"
      unfolding candidates_iff by blast
    moreover have "Href ?c = h" by simp
    ultimately show ?kept
      unfolding ExtractLinks_hrefs by blast
  qed
qed (rule ExtractLinks_one_anchor other_excluded relative_included)+

subsection \<open>Several \<open>href\<close> attributes on one anchor\<close>

text \<open>
  C7. The claim is that only the first \<open>href\<close> attribute of an anchor is inspected, so
  that a later \<open>href\<close> attribute of the same element never contributes a link. The loop
  over the attributes leaves (\<open>break\<close>) only at an \<open>href\<close> attribute that is an internal
  link, so it goes past a first \<open>href\<close> that is external: on the anchor with the
  attributes \<open>href="https://other.com/x"\<close> and \<open>href="/y"\<close>, in this order, and the base
  domain \<open>https://a.com\<close>, \<open>ExtractLinks\<close> returns the link of the second attribute.
\<close>

theorem ExtractLinks_later_href:
  "ExtractLinks
     (Node ElementNode atom_A ''a''
        [\<lparr>Namespace = [], Key = ''href'', Val = ''https://other.com/x''\<rparr>,
         \<lparr>Namespace = [], Key = ''href'', Val = ''/y''\<rparr>]
        [Node TextNode 0 ''Y'' [] []])
     ''https://a.com'' = [\<lparr>Href = ''https://a.com/y'', Text = ''Y''\<rparr>]"
  by code_simp

text \<open>An anchor without any \<open>href\<close> attribute yields no link.\<close>

lemma anchorLink_no_href:
  "\<forall>attr \<in> set (Attr node). Key attr \<noteq> ''href'' \<Longrightarrow> anchorLink baseDomain node = None"
  by (auto simp: anchorLink_def find_None_iff)

section \<open>Properties of the sitemap encoder\<close>

lemma EscapeString_plain: "list_all plainByte s \<Longrightarrow> EscapeString s = s"
proof (induction s)
  case Nil
  then show ?case by (simp add: EscapeString.simps)
next
  case (Cons c s)
  then have c: "plainByte c" and s: "EscapeString s = s"
    by simp_all
  from c have "DecodeRuneInString (c # s) = (byte c, 1)"
    by (simp add: plainByte_def)
  moreover from c have "escapeRune (byte c) 1 (c # s) = [c]"
    by (auto simp: plainByte_def escapeRune_def isInCharacterRange_def RuneError_def byte_def)
  ultimately show ?case
    using s by (simp add: EscapeString.simps)
qed

lemma xmlns_plain:
  "EscapeString ''http://www.sitemaps.org/schemas/sitemap/0.9'' =
     ''http://www.sitemaps.org/schemas/sitemap/0.9''"
  by (rule EscapeString_plain) (simp add: plainByte_def byte_def)

lemma marshalUrl_printing:
  assumes "printing p"
  shows "printing (marshalUrl u p) \<and> \<not> indentedIn (marshalUrl u p) \<and>
     written (marshalUrl u p) = written p @ urlBlock (EscapeString (Loc u))"
  using assms
  by (simp add: printing_def marshalUrl_def writeStart_def writeEnd_def writeIndent_def
      WriteString_def urlBlock_def Let_def numeral_2_eq_2)

lemma fold_marshalUrl:
  assumes "printing p"
  shows "printing (fold marshalUrl us p) \<and>
     indentedIn (fold marshalUrl us p) = (us = [] \<and> indentedIn p) \<and>
     written (fold marshalUrl us p) = written p @ concat (map (\<lambda>u. urlBlock (EscapeString (Loc u))) us)"
  using assms
proof (induction us arbitrary: p)
  case Nil
  then show ?case by simp
next
  case (Cons u us)
  from marshalUrl_printing [OF Cons.prems, of u] Cons.IH [of "marshalUrl u p"]
  show ?case by simp
qed

lemma writeStart_urlset:
  "printing (writeStart ''urlset'' [(''xmlns'', ns)] printer0) \<and>
   indentedIn (writeStart ''urlset'' [(''xmlns'', ns)] printer0) \<and>
   written (writeStart ''urlset'' [(''xmlns'', ns)] printer0) =
     ''<urlset xmlns='' @ [CHR 0x22] @ EscapeString ns @ [CHR 0x22] @ ''>''"
  by (simp add: printer0_def printing_def writeStart_def writeIndent_def WriteString_def
      writeAttr_def Let_def)

lemma writeEnd_urlset:
  assumes "printing p"
  shows "written (writeEnd ''urlset'' p) =
     written p @ (if indentedIn p then [] else [CHR 0x0A]) @ ''</urlset>''"
  using assms
  by (simp add: printing_def writeEnd_def writeIndent_def WriteString_def Let_def)

lemma marshalUrlset_written:
  "written (marshalUrlset v printer0) =
     ''<urlset xmlns='' @ [CHR 0x22] @ EscapeString (Xmlns v) @ [CHR 0x22] @ ''>'' @
     concat (map (\<lambda>u. urlBlock (EscapeString (Loc u))) (Urls v)) @
     (if Urls v = [] then [] else [CHR 0x0A]) @ ''</urlset>''"
proof -
  let ?p1 = "writeStart ''urlset'' [(''xmlns'', Xmlns v)] printer0"
  let ?p2 = "fold marshalUrl (Urls v) ?p1"
  note p1 = writeStart_urlset [of "Xmlns v"]
  from p1 have p2: "printing ?p2 \<and> indentedIn ?p2 = (Urls v = [] \<and> indentedIn ?p1) \<and>
      written ?p2 = written ?p1 @ concat (map (\<lambda>u. urlBlock (EscapeString (Loc u))) (Urls v))"
    by (intro fold_marshalUrl) simp
  then have "written (writeEnd ''urlset'' ?p2) =
      written ?p2 @ (if indentedIn ?p2 then [] else [CHR 0x0A]) @ ''</urlset>''"
    by (intro writeEnd_urlset) simp
  with p1 p2 show ?thesis
    unfolding marshalUrlset_def by simp
qed

lemma EncodeXML_escaped:
  "EncodeXML links = Inr (sitemapText (map (\<lambda>l. EscapeString (Href l)) links))"
proof -
  let ?v = "\<lparr>Xmlns = ''http://www.sitemaps.org/schemas/sitemap/0.9'',
             Urls = map (\<lambda>link. \<lparr>Loc = Href link\<rparr>) links\<rparr>"
  have "EncodeXML links = Inr (Header @ written (marshalUrlset ?v printer0))"
    by (simp add: EncodeXML_def MarshalIndent_def printer0_def)
  also have "written (marshalUrlset ?v printer0) =
      ''<urlset xmlns='' @ [CHR 0x22] @ ''http://www.sitemaps.org/schemas/sitemap/0.9'' @
      [CHR 0x22] @ ''>'' @ concat (map urlBlock (map (\<lambda>l. EscapeString (Href l)) links)) @
      (if links = [] then [] else [CHR 0x0A]) @ ''</urlset>''"
    unfolding marshalUrlset_written
    by (simp add: xmlns_plain comp_def)
  finally show ?thesis
    by (simp add: sitemapText_def)
qed

text \<open>
  C10, as amended. For every list of links, the empty one included, \<open>EncodeXML\<close> succeeds and
  returns the XML declaration followed by the \<open>urlset\<close> root element with the namespace
  attribute \<open>http://www.sitemaps.org/schemas/sitemap/0.9\<close>, with exactly one \<open>url\<close> child
  holding one \<open>loc\<close> element per link, in the order of the links; the text of each \<open>loc\<close>
  is what the XML printer's \<open>EscapeString\<close> makes of the link's href (the link's text is
  dropped). It is the href itself when the href is made of plain bytes.
\<close>

theorem EncodeXML_shape:
  "EncodeXML links = Inr (sitemapText (map (\<lambda>l. EscapeString (Href l)) links)) \<and>
   ((\<forall>l \<in> set links. list_all plainByte (Href l)) \<longrightarrow>
      EncodeXML links = Inr (sitemapText (map Href links)))"
proof (intro conjI impI)
  show "EncodeXML links = Inr (sitemapText (map (\<lambda>l. EscapeString (Href l)) links))"
    by (rule EncodeXML_escaped)
next
  assume "\<forall>l \<in> set links. list_all plainByte (Href l)"
  then have "map (\<lambda>l. EscapeString (Href l)) links = map Href links"
    by (simp add: EscapeString_plain)
  then show "EncodeXML links = Inr (sitemapText (map Href links))"
    by (simp only: EncodeXML_escaped)
qed

lemma xtest_plain: "list_all plainByte ''https://x.test/''"
  by (simp add: plainByte_def byte_def)

theorem EncodeXML_shape_witness:
  "list_all plainByte ''https://x.test/'' \<and>
   EncodeXML [\<lparr>Href = ''https://x.test/'', Text = ''home''\<rparr>] =
     Inr (sitemapText [''https://x.test/''])"
proof -
  have "\<forall>l \<in> set [\<lparr>Href = ''https://x.test/'', Text = ''home''\<rparr>]. list_all plainByte (Href l)"
    using xtest_plain by simp
  with EncodeXML_shape [of "[\<lparr>Href = ''https://x.test/'', Text = ''home''\<rparr>]"]
  have "EncodeXML [\<lparr>Href = ''https://x.test/'', Text = ''home''\<rparr>] =
      Inr (sitemapText (map Href [\<lparr>Href = ''https://x.test/'', Text = ''home''\<rparr>]))"
    by blast
  with xtest_plain show ?thesis by simp
qed

text \<open>
  C10, as stated, fails: the text of a \<open>loc\<close> is not always the link's href. For the href
  \<open>/\<close> followed by the control character U+0001, which XML cannot hold, the \<open>loc\<close> holds
  \<open>/\<close> followed by the replacement character U+FFFD (the bytes EF BF BD).
\<close>

lemma EscapeString_control: "EscapeString (''/'' @ [CHR 0x01]) = ''/'' @ [CHR 0xEF, CHR 0xBF, CHR 0xBD]"
  by (simp add: EscapeString.simps escapeRune_def isInCharacterRange_def RuneError_def byte_def)

theorem EncodeXML_href_counterexample:
  "EncodeXML [\<lparr>Href = ''/'' @ [CHR 0x01], Text = []\<rparr>] =
     Inr (sitemapText [''/'' @ [CHR 0xEF, CHR 0xBF, CHR 0xBD]]) \<and>
   EncodeXML [\<lparr>Href = ''/'' @ [CHR 0x01], Text = []\<rparr>] \<noteq>
     Inr (sitemapText [''/'' @ [CHR 0x01]])"
proof -
  have "EncodeXML [\<lparr>Href = ''/'' @ [CHR 0x01], Text = []\<rparr>] =
      Inr (sitemapText [''/'' @ [CHR 0xEF, CHR 0xBF, CHR 0xBD]])"
    unfolding EncodeXML_escaped using EscapeString_control by simp
  moreover have "sitemapText [''/'' @ [CHR 0xEF, CHR 0xBF, CHR 0xBD]] \<noteq> sitemapText [''/'' @ [CHR 0x01]]"
    by (simp add: sitemapText_def urlBlock_def)
  ultimately show ?thesis by simp
qed

end
